theory Spec2Isabelle
  imports Main
begin

section \<open>Strings and paths\<close>

text \<open>
  The two index builders of the CDN repository, \<^verbatim>\<open>scripts/build-game-asset-index.js\<close>
  (game assets) and \<^verbatim>\<open>scripts/generate-image-index.js\<close> (user content), are embedded
  as HOL functions over an explicit picture of what they read: the directory tree, the
  sidecar files, the image decoder, the clock.

  A JavaScript string is modelled as a \<^typ>\<open>string\<close>. On ASCII strings the functions
  below are the script's own. \<^verbatim>\<open>toLowerCase\<close> moves \<^verbatim>\<open>A-Z\<close> only and \<^verbatim>\<open>length\<close> counts
  characters, which is what JavaScript does on an ASCII string and not beyond: what is
  proved about lowercased names is stated for ASCII file names (\<open>isAscii\<close>).
\<close>

definition isAscii :: "char \<Rightarrow> bool" where
  "isAscii c = (\<not> digit7 c)"

definition isDigit :: "char \<Rightarrow> bool" where
  \<comment> \<open>the regular expression class \<^verbatim>\<open>\d\<close>\<close>
  "isDigit c = (c \<in> set ''0123456789'')"

definition lowerChar :: "char \<Rightarrow> char" where
  "lowerChar c =
     (case map_of (zip ''ABCDEFGHIJKLMNOPQRSTUVWXYZ'' ''abcdefghijklmnopqrstuvwxyz'') c of
        Some d \<Rightarrow> d
      | None \<Rightarrow> c)"

definition toLowerCase :: "string \<Rightarrow> string" where
  "toLowerCase s = map lowerChar s"

definition isLowerCase :: "string \<Rightarrow> bool" where
  \<comment> \<open>a token is lowercase when lowercasing leaves it alone\<close>
  "isLowerCase s = (toLowerCase s = s)"

definition endsWith :: "string \<Rightarrow> string \<Rightarrow> bool" where
  "endsWith s suf = (length suf \<le> length s \<and> drop (length s - length suf) s = suf)"

definition truthy :: "string \<Rightarrow> bool" where
  \<comment> \<open>a JavaScript string is falsy exactly when it is empty\<close>
  "truthy s = (s \<noteq> [])"

text \<open>
  \<^verbatim>\<open>s.split(sep)\<close> for a separator that is one character of a class: \<open>n\<close> separators
  give \<open>n + 1\<close> pieces, empty ones included, and the empty string gives one empty piece.
\<close>

fun split_on :: "(char \<Rightarrow> bool) \<Rightarrow> string \<Rightarrow> string list" where
  "split_on sep [] = [[]]"
| "split_on sep (c # cs) =
     (if sep c then [] # split_on sep cs
      else (case split_on sep cs of
              [] \<Rightarrow> [[c]]
            | w # ws \<Rightarrow> (c # w) # ws))"

definition isSlash :: "char \<Rightarrow> bool" where
  "isSlash c = (c = CHR ''/'')"

definition isBackslash :: "char \<Rightarrow> bool" where
  "isBackslash c = (c = CHR 0x5C)"

definition isUnderscoreOrDash :: "char \<Rightarrow> bool" where
  \<comment> \<open>the class \<^verbatim>\<open>[_-]\<close>\<close>
  "isUnderscoreOrDash c = (c = CHR ''_'' \<or> c = CHR ''-'')"

definition slashes :: "string \<Rightarrow> string" where
  \<comment> \<open>\<^verbatim>\<open>s.replace(/\\/g, '/')\<close>\<close>
  "slashes s = map (\<lambda>c. if isBackslash c then CHR ''/'' else c) s"

text \<open>
  \<^verbatim>\<open>s.match(/\d+/g)\<close>: the maximal runs of digits, left to right (\<^verbatim>\<open>null\<close>, which the
  caller skips, is the empty list). The first argument is the run being read.
\<close>

fun digitRuns :: "string \<Rightarrow> string \<Rightarrow> string list" where
  "digitRuns cur [] = (if cur = [] then [] else [cur])"
| "digitRuns cur (c # cs) =
     (if isDigit c then digitRuns (cur @ [c]) cs
      else (if cur = [] then [] else [cur]) @ digitRuns [] cs)"

definition matchDigits :: "string \<Rightarrow> string list" where
  "matchDigits s = digitRuns [] s"

text \<open>
  \<^verbatim>\<open>filename.replace(/\.[^/.]+$/, '')\<close>: the leftmost dot that is followed, up to the end
  of the string, by one or more characters none of which is a slash or a dot, is cut off
  together with what follows it.
\<close>

fun stripExt :: "string \<Rightarrow> string" where
  "stripExt [] = []"
| "stripExt (c # cs) =
     (if c = CHR ''.'' \<and> cs \<noteq> [] \<and> list_all (\<lambda>d. d \<noteq> CHR ''/'' \<and> d \<noteq> CHR ''.'') cs
      then []
      else c # stripExt cs)"

text \<open>
  Node's \<^verbatim>\<open>path\<close> module on POSIX paths that do not end in a slash (every path the
  builders handle comes from a directory listing or a glob match).
\<close>

definition basename :: "string \<Rightarrow> string" where
  "basename p = rev (takeWhile (\<lambda>c. \<not> isSlash c) (rev p))"

definition dirname :: "string \<Rightarrow> string" where
  "dirname p =
     (if list_ex isSlash p then rev (drop 1 (dropWhile (\<lambda>c. \<not> isSlash c) (rev p)))
      else ''.'')"

definition basenameWithout :: "string \<Rightarrow> string \<Rightarrow> string" where
  \<comment> \<open>\<^verbatim>\<open>path.basename(p, suffix)\<close>: the suffix is cut unless it is the whole base name\<close>
  "basenameWithout p suf =
     (let b = basename p in
      if endsWith b suf \<and> length suf < length b then take (length b - length suf) b else b)"

definition extname :: "string \<Rightarrow> string" where
  \<comment> \<open>from the last dot of the base name; empty when there is no dot, when the only dot
      leads the name, and for \<^verbatim>\<open>..\<close>\<close>
  "extname p =
     (let b = basename p; e = takeWhile (\<lambda>c. c \<noteq> CHR ''.'') (rev b) in
      if length e = length b then []
      else if Suc (length e) = length b then []
      else if b = ''..'' then []
      else CHR ''.'' # rev e)"

definition join :: "string \<Rightarrow> string \<Rightarrow> string" where
  \<comment> \<open>\<^verbatim>\<open>path.join(dir, name)\<close> for a normalised \<open>dir\<close> other than the root and an entry name\<close>
  "join dir name = dir @ ''/'' @ name"

definition relative :: "string \<Rightarrow> string \<Rightarrow> string" where
  \<comment> \<open>\<^verbatim>\<open>path.relative(from, to)\<close> for a path \<open>to\<close> below the directory \<open>from\<close>\<close>
  "relative from to = drop (Suc (length from)) to"

section \<open>The game-asset builder\<close>

subsection \<open>What the builder reads\<close>

text \<open>
  A directory entry as \<^verbatim>\<open>fs.readdir(dir, {withFileTypes: true})\<close> reports it: a regular
  file, a directory with its own listing, a directory whose listing cannot be read
  (\<^verbatim>\<open>readdir\<close> throws there), or anything else (a symbolic link, a socket).
\<close>

datatype dirent =
    File string
  | Dir string "dirent list"
  | NoAccessDir string
  | Other string

datatype scan_root =
    Missing \<comment> \<open>\<^verbatim>\<open>fs.access(CDN_DIR)\<close> throws\<close>
  | Unreadable \<comment> \<open>the root exists and \<^verbatim>\<open>readdir\<close> throws on it\<close>
  | Listing "dirent list"

record dims =
  width :: nat
  height :: nat

record stats =
  st_size :: nat
  st_mtime :: string \<comment> \<open>\<^verbatim>\<open>stats.mtime.toISOString()\<close>\<close>

record g_env =
  CDN_DIR :: string
  OUTPUT_DIR :: string
  cdn_root :: scan_root
  statOf :: "string \<Rightarrow> stats option" \<comment> \<open>\<^verbatim>\<open>fs.stat(p)\<close>; \<open>None\<close> when it throws\<close>
  sharpOf :: "string \<Rightarrow> dims option"
    \<comment> \<open>\<^verbatim>\<open>sharp(p).metadata()\<close>; \<open>None\<close> when it throws, a missing side is \<open>0\<close>\<close>
  output_writable :: bool \<comment> \<open>\<^verbatim>\<open>fs.mkdir\<close> and \<^verbatim>\<open>fs.writeFile\<close> succeed\<close>

subsection \<open>What the builder produces\<close>

record g_entry =
  g_path :: string
  g_filename :: string
  g_category :: string
  g_filesize :: nat
  g_keywords :: "string list"
  g_lastModified :: string
  g_dimensions :: "dims option" \<comment> \<open>the property is absent when \<open>None\<close>\<close>

record g_index =
  g_version :: string
  g_base :: string \<comment> \<open>the document's \<^verbatim>\<open>path\<close> property\<close>
  g_totalImages :: nat
  g_generatedAt :: string
  g_images :: "g_entry list"

text \<open>
  A run of a builder: the exit code of the process, the files it wrote (path and
  document, in order) and the warnings of the top level.
\<close>

record 'd run =
  exit_code :: nat
  written :: "(string \<times> 'd) list"
  warnings :: "string list"

subsection \<open>The scanner\<close>

definition imageExts :: "string list" where
  "imageExts = [''.jpg'', ''.jpeg'', ''.png'', ''.webp'', ''.gif'', ''.svg'']"

fun scanEntry :: "string \<Rightarrow> dirent \<Rightarrow> string list"
  and scanEntries :: "string \<Rightarrow> dirent list \<Rightarrow> string list" where
  "scanEntry dir (Dir n sub) = scanEntries (join dir n) sub"
| "scanEntry dir (NoAccessDir n) = []"
| "scanEntry dir (File n) =
     (if toLowerCase (extname n) \<in> set imageExts then [join dir n] else [])"
| "scanEntry dir (Other n) = []"
| "scanEntries dir [] = []"
| "scanEntries dir (e # es) = scanEntry dir e @ scanEntries dir es"

definition getImagesInDirectory :: "string \<Rightarrow> scan_root \<Rightarrow> string list" where
  "getImagesInDirectory dir r =
     (case r of Listing es \<Rightarrow> scanEntries dir es | _ \<Rightarrow> [])"

subsection \<open>Category, dimensions, keywords\<close>

definition extractCategory :: "string \<Rightarrow> string" where
  \<comment> \<open>the helper the script defines and no longer calls\<close>
  "extractCategory relativePath =
     (case filter truthy (split_on isSlash relativePath) of
        [] \<Rightarrow> ''uncategorized''
      | p # _ \<Rightarrow> p)"

definition categoryOf :: "string \<Rightarrow> string" where
  \<comment> \<open>\<^verbatim>\<open>relativeToCdn.split(/[/\\]/)[0] || 'uncategorized'\<close>, as the loop computes it\<close>
  "categoryOf relativeToCdn =
     (case split_on (\<lambda>c. isSlash c \<or> isBackslash c) relativeToCdn of
        [] \<Rightarrow> ''uncategorized''
      | p # _ \<Rightarrow> if truthy p then p else ''uncategorized'')"

definition getImageDimensions :: "g_env \<Rightarrow> string \<Rightarrow> dims option" where
  "getImageDimensions env fullPath =
     (if toLowerCase (extname fullPath) = ''.svg'' then None
      else (case sharpOf env fullPath of
              None \<Rightarrow> None
            | Some m \<Rightarrow> if width m \<noteq> 0 \<and> height m \<noteq> 0 then Some m else None))"

definition add :: "string \<Rightarrow> string list \<Rightarrow> string list" where
  \<comment> \<open>\<^verbatim>\<open>Set.prototype.add\<close> on a set kept in insertion order\<close>
  "add k ks = (if k \<in> set ks then ks else ks @ [k])"

definition addAll :: "string list \<Rightarrow> string list \<Rightarrow> string list" where
  \<comment> \<open>\<^verbatim>\<open>xs.forEach(x => keywords.add(x))\<close>\<close>
  "addAll xs ks = fold add xs ks"

definition generateKeywords :: "string \<Rightarrow> string \<Rightarrow> string \<Rightarrow> string list" where
  "generateKeywords filename category imagePath =
     (let nameWithoutExt = stripExt filename;
          k1 = add nameWithoutExt [];
          k2 = add category k1;
          pathParts = filter truthy (split_on isSlash imagePath);
          k3 = addAll (filter (\<lambda>part. part \<noteq> ''images'' \<and> part \<noteq> ''content'' \<and> part \<noteq> filename)
                         pathParts) k2;
          lowerName = toLowerCase nameWithoutExt;
          k4 = addAll (matchDigits lowerName) k3;
          wordsOf = split_on isUnderscoreOrDash lowerName
      in addAll (filter (\<lambda>word. 1 < length word) wordsOf) k4)"

subsection \<open>The run\<close>

definition processImage :: "g_env \<Rightarrow> string \<Rightarrow> g_entry option" where
  \<comment> \<open>the body of the loop; \<open>None\<close> when it throws and the file is skipped\<close>
  "processImage env fullPath =
     (let relativeToCdn = relative (CDN_DIR env) fullPath;
          imagePath = ''/'' @ slashes relativeToCdn
      in case statOf env fullPath of
           None \<Rightarrow> None
         | Some st \<Rightarrow>
             (let filename = basename fullPath;
                  category = categoryOf relativeToCdn;
                  dimensions = getImageDimensions env fullPath;
                  keywords = generateKeywords filename category imagePath
              in Some \<lparr>g_path = imagePath, g_filename = filename, g_category = category,
                       g_filesize = st_size st, g_keywords = keywords,
                       g_lastModified = st_mtime st, g_dimensions = dimensions\<rparr>))"

primrec processImages :: "g_env \<Rightarrow> string list \<Rightarrow> g_entry list" where
  "processImages env [] = []"
| "processImages env (f # fs) =
     (case processImage env f of
        None \<Rightarrow> processImages env fs
      | Some e \<Rightarrow> e # processImages env fs)"

definition INDEX_PATH :: "g_env \<Rightarrow> string" where
  "INDEX_PATH env = join (OUTPUT_DIR env) ''image-index.json''"

definition buildImageIndexes :: "g_env \<Rightarrow> string \<Rightarrow> g_index run" where
  \<comment> \<open>\<open>now\<close> is what \<^verbatim>\<open>new Date().toISOString()\<close> returns when the document is built\<close>
  "buildImageIndexes env now =
     (if cdn_root env = Missing
      then \<lparr>exit_code = 1, written = [], warnings = [''CDN directory not found'']\<rparr>
      else
        (let imageFiles = getImagesInDirectory (CDN_DIR env) (cdn_root env) in
         if length imageFiles = 0
         then \<lparr>exit_code = 0, written = [], warnings = [''No images found in CDN directory'']\<rparr>
         else
           (let images = processImages env imageFiles;
                imageIndex = \<lparr>g_version = ''1.0'', g_base = ''/images'',
                              g_totalImages = length images, g_generatedAt = now,
                              g_images = images\<rparr>
            in if output_writable env
               then \<lparr>exit_code = 0, written = [(INDEX_PATH env, imageIndex)], warnings = []\<rparr>
               else \<lparr>exit_code = 1, written = [], warnings = []\<rparr>)))"

section \<open>The user-content builder\<close>

subsection \<open>What the builder reads\<close>

text \<open>
  A sidecar \<^verbatim>\<open><id>-metadata.json\<close> that parses to a JSON object, read through the
  properties the builder looks at. A property that is absent or \<^verbatim>\<open>null\<close> is \<open>None\<close>;
  the textual properties hold strings, \<^verbatim>\<open>tags\<close> an array of strings and
  \<^verbatim>\<open>dimensions\<close> an object whose sides are numbers, a missing side being \<open>0\<close>.
\<close>

record metadata =
  m_filename :: "string option"
  m_name :: "string option"
  m_description :: "string option"
  m_category :: "string option"
  m_tags :: "string list option"
  m_dimensions :: "dims option"
  m_uploadedBy :: "string option"
  m_uploadDate :: "string option"
  m_uploadedAt :: "string option"
  m_format :: "string option"

text \<open>
  The file system and the engine, fixed for a run. The order of \<open>metadataFiles\<close> and of
  \<open>dirEntries\<close> is the order in which \<^verbatim>\<open>glob.sync\<close> reports its matches.
\<close>

record u_env =
  metadataFiles :: "string list"
    \<comment> \<open>\<^verbatim>\<open>glob.sync('user-content/images/**/*-metadata.json')\<close>\<close>
  readJSON :: "string \<Rightarrow> metadata option"
    \<comment> \<open>\<^verbatim>\<open>JSON.parse(fs.readFileSync(p))\<close>; \<open>None\<close> when reading or parsing throws, and for
        \<^verbatim>\<open>null\<close>, whose first property access throws\<close>
  dirEntries :: "string \<Rightarrow> string list" \<comment> \<open>the names in a directory\<close>
  statSize :: "string \<Rightarrow> nat option" \<comment> \<open>\<^verbatim>\<open>fs.statSync(p).size\<close>; \<open>None\<close> when it throws\<close>
  sharpMeta :: "string \<Rightarrow> dims option" \<comment> \<open>\<^verbatim>\<open>sharp(p).metadata()\<close>; \<open>None\<close> when it rejects\<close>
  dateValue :: "string \<Rightarrow> int option"
    \<comment> \<open>the time value of \<^verbatim>\<open>new Date(s)\<close> in milliseconds; \<open>None\<close> is \<^verbatim>\<open>NaN\<close>\<close>
  index_writable :: bool
    \<comment> \<open>\<^verbatim>\<open>fs.writeFileSync(OUTPUT_PATH, ...)\<close> succeeds; the script makes no directory
        before it writes, so the write throws when \<^verbatim>\<open>user-content/images\<close> does not exist\<close>

text \<open>
  The clock: what \<^verbatim>\<open>new Date().toISOString()\<close> returns while the \<open>i\<close>-th sidecar is
  processed, and when the document is put together.
\<close>

record u_clock =
  nowAt :: "nat \<Rightarrow> string"
  nowEnd :: string

subsection \<open>What the builder produces\<close>

record u_entry =
  u_id :: string
  u_filename :: string
  u_name :: string
  u_description :: string
  u_path :: "string option" \<comment> \<open>\<open>None\<close> is \<^verbatim>\<open>null\<close>\<close>
  u_webpPath :: "string option"
  u_category :: string
  u_tags :: "string list"
  u_dimensions :: dims
  u_filesize :: nat
  u_uploadedBy :: string
  u_uploadDate :: string
  u_format :: string

record u_index =
  u_version :: string
  u_totalImages :: nat
  u_generatedDate :: string
  u_images :: "u_entry list"
  u_byCategory :: "string \<rightharpoonup> string list"

subsection \<open>One sidecar\<close>

definition BASE_PATH :: string where
  "BASE_PATH = ''user-content/images''"

definition OUTPUT_PATH :: string where
  "OUTPUT_PATH = join BASE_PATH ''image-index.json''"

definition orElse :: "string option \<Rightarrow> string \<Rightarrow> string" where
  \<comment> \<open>\<^verbatim>\<open>x || d\<close> for a property \<open>x\<close> that holds a string, or nothing\<close>
  "orElse x d = (case x of None \<Rightarrow> d | Some s \<Rightarrow> if truthy s then s else d)"

definition originalExts :: "string list" where
  "originalExts = [''jpg'', ''jpeg'', ''png'', ''gif'', ''webp'']"

text \<open>
  The script pastes \<open>dir\<close> and \<open>imageId\<close> into the glob pattern
  \<^verbatim>\<open>${dir}/${imageId}.{jpg,jpeg,png,gif,webp}\<close> as they are. When neither holds a glob
  metacharacter (\<open>globSpecial\<close>) the pattern matches the five names it spells, letter case
  included as on Linux, which is what \<open>globImages\<close> looks up; a bracket or a star in them
  would be read as a pattern. What is
  proved about the files found beside a sidecar is stated for sidecar paths without such a
  character.
\<close>

definition globSpecial :: "char \<Rightarrow> bool" where
  "globSpecial c = (c \<in> set ''*?[]{}()!+@|'' \<or> isBackslash c)"

definition globImages :: "u_env \<Rightarrow> string \<Rightarrow> string \<Rightarrow> string list" where
  \<comment> \<open>\<^verbatim>\<open>glob.sync(`${dir}/${imageId}.{jpg,jpeg,png,gif,webp}`)\<close>\<close>
  "globImages env dir imageId =
     map (join dir)
       (filter (\<lambda>n. n \<in> set (map (\<lambda>e. imageId @ ''.'' @ e) originalExts)) (dirEntries env dir))"

definition existsSync :: "u_env \<Rightarrow> string \<Rightarrow> bool" where
  "existsSync env p = (basename p \<in> set (dirEntries env (dirname p)))"

definition pickOriginal :: "string list \<Rightarrow> string option" where
  \<comment> \<open>\<^verbatim>\<open>originalFiles.find(f => !f.endsWith('.webp')) || originalFiles[0]\<close>\<close>
  "pickOriginal originalFiles =
     (case find (\<lambda>f. \<not> endsWith f ''.webp'') originalFiles of
        Some f \<Rightarrow> Some f
      | None \<Rightarrow> (case originalFiles of [] \<Rightarrow> None | f # _ \<Rightarrow> Some f))"

definition zeroDims :: dims where
  "zeroDims = \<lparr>width = 0, height = 0\<rparr>"

definition extractDimensions :: "u_env \<Rightarrow> string option \<Rightarrow> string \<Rightarrow> dims" where
  \<comment> \<open>the body of \<^verbatim>\<open>if (!metadata.dimensions || ...)\<close>: what \<^verbatim>\<open>metadata.dimensions\<close> becomes\<close>
  "extractDimensions env originalFile webpFile =
     (let imgFile = (case originalFile of Some f \<Rightarrow> f | None \<Rightarrow> webpFile) in
      if truthy imgFile \<and> existsSync env imgFile
      then (case sharpMeta env imgFile of Some imgMeta \<Rightarrow> imgMeta | None \<Rightarrow> zeroDims)
      else zeroDims)"

definition buildEntry :: "u_env \<Rightarrow> string \<Rightarrow> string \<Rightarrow> u_entry option" where
  \<comment> \<open>the body of the loop for one sidecar, \<open>now\<close> being the clock's reading there;
      \<open>None\<close> when it throws: the sidecar is counted as an error and skipped\<close>
  "buildEntry env now metaFile =
     (case readJSON env metaFile of
        None \<Rightarrow> None
      | Some md \<Rightarrow>
          (let imageId = basenameWithout metaFile ''-metadata.json'';
               dir = dirname metaFile;
               originalFiles = globImages env dir imageId;
               originalFile = pickOriginal originalFiles;
               webpFile = join dir (imageId @ ''.webp'');
               dimensions =
                 (case m_dimensions md of
                    None \<Rightarrow> extractDimensions env originalFile webpFile
                  | Some d \<Rightarrow>
                      if width d = 0 \<or> height d = 0
                      then extractDimensions env originalFile webpFile
                      else d);
               filesize =
                 (case originalFile of
                    None \<Rightarrow> Some 0
                  | Some f \<Rightarrow> if existsSync env f then statSize env f else Some 0)
           in case filesize of
                None \<Rightarrow> None
              | Some sz \<Rightarrow>
                  Some \<lparr>u_id = imageId,
                        u_filename = orElse (m_filename md) imageId,
                        u_name = orElse (m_name md) (orElse (m_filename md) imageId),
                        u_description = orElse (m_description md) [],
                        u_path = map_option slashes originalFile,
                        u_webpPath = (if existsSync env webpFile then Some (slashes webpFile) else None),
                        u_category = orElse (m_category md) ''other'',
                        u_tags = (case m_tags md of None \<Rightarrow> [] | Some ts \<Rightarrow> ts),
                        u_dimensions = dimensions,
                        u_filesize = sz,
                        u_uploadedBy = orElse (m_uploadedBy md) ''unknown'',
                        u_uploadDate = orElse (m_uploadDate md) (orElse (m_uploadedAt md) now),
                        u_format =
                          orElse (m_format md)
                            (case originalFile of
                               Some f \<Rightarrow> drop 1 (extname f)
                             | None \<Rightarrow> ''unknown'')\<rparr>))"

fun collectEntries :: "u_env \<Rightarrow> u_clock \<Rightarrow> nat \<Rightarrow> string list \<Rightarrow> u_entry list" where
  \<comment> \<open>the \<^verbatim>\<open>for\<close> loop from the \<open>i\<close>-th sidecar on: the entries pushed, in order\<close>
  "collectEntries env clock i [] = []"
| "collectEntries env clock i (metaFile # rest) =
     (case buildEntry env (nowAt clock i) metaFile of
        None \<Rightarrow> collectEntries env clock (Suc i) rest
      | Some entry \<Rightarrow> entry # collectEntries env clock (Suc i) rest)"

subsection \<open>Sorting and grouping\<close>

text \<open>
  \<^verbatim>\<open>images.sort((a, b) => new Date(b.uploadDate) - new Date(a.uploadDate))\<close>. The
  comparator's result is a number or \<^verbatim>\<open>NaN\<close> (\<open>None\<close>), and the sort reads \<^verbatim>\<open>NaN\<close> as
  \<open>0\<close>. The sort is stable: an element moves behind exactly the elements that compare
  strictly before it, which is an insertion sort from the right. When every date is
  valid the comparator is consistent and the order is the only one the language allows;
  with an inconsistent comparator the language leaves the order to the engine, and the
  order theorems below do not speak about that case.
\<close>

definition compareUpload :: "u_env \<Rightarrow> u_entry \<Rightarrow> u_entry \<Rightarrow> int option" where
  "compareUpload env a b =
     (case (dateValue env (u_uploadDate b), dateValue env (u_uploadDate a)) of
        (Some tb, Some ta) \<Rightarrow> Some (tb - ta)
      | _ \<Rightarrow> None)"

definition sortCompare :: "('a \<Rightarrow> 'a \<Rightarrow> int option) \<Rightarrow> 'a \<Rightarrow> 'a \<Rightarrow> int" where
  "sortCompare cmp x y = (case cmp x y of None \<Rightarrow> 0 | Some v \<Rightarrow> v)"

fun insertBy :: "('a \<Rightarrow> 'a \<Rightarrow> int option) \<Rightarrow> 'a \<Rightarrow> 'a list \<Rightarrow> 'a list" where
  "insertBy cmp x [] = [x]"
| "insertBy cmp x (y # ys) =
     (if sortCompare cmp x y \<le> 0 then x # y # ys else y # insertBy cmp x ys)"

definition sortBy :: "('a \<Rightarrow> 'a \<Rightarrow> int option) \<Rightarrow> 'a list \<Rightarrow> 'a list" where
  "sortBy cmp xs = foldr (insertBy cmp) xs []"

text \<open>
  The reduction that builds \<^verbatim>\<open>byCategory\<close> starts from the object literal \<^verbatim>\<open>{}\<close>, which
  inherits the properties of \<^verbatim>\<open>Object.prototype\<close>. For a category that names one of them
  \<^verbatim>\<open>acc[img.category]\<close> is truthy and has no \<^verbatim>\<open>push\<close>: the call throws a
  \<^verbatim>\<open>TypeError\<close> (\<open>None\<close>).
\<close>

definition protoKeys :: "string list" where
  "protoKeys =
     [''constructor'', ''__defineGetter__'', ''__defineSetter__'', ''hasOwnProperty'',
      ''__lookupGetter__'', ''__lookupSetter__'', ''isPrototypeOf'', ''propertyIsEnumerable'',
      ''toString'', ''valueOf'', ''__proto__'', ''toLocaleString'']"

fun groupByCategory ::
  "(string \<rightharpoonup> string list) \<Rightarrow> u_entry list \<Rightarrow> (string \<rightharpoonup> string list) option" where
  "groupByCategory acc [] = Some acc"
| "groupByCategory acc (img # rest) =
     (if u_category img \<in> set protoKeys then None
      else
        (let bucket = (case acc (u_category img) of None \<Rightarrow> [] | Some ids \<Rightarrow> ids)
         in groupByCategory (acc(u_category img \<mapsto> bucket @ [u_id img])) rest))"

subsection \<open>The run\<close>

definition fatal :: "'d run" where
  \<comment> \<open>the rejection reaches the top level: \<^verbatim>\<open>process.exit(1)\<close>\<close>
  "fatal = \<lparr>exit_code = 1, written = [], warnings = []\<rparr>"

definition sortedEntries :: "u_env \<Rightarrow> u_clock \<Rightarrow> u_entry list" where
  \<comment> \<open>\<^verbatim>\<open>images\<close> after the loop and the sort\<close>
  "sortedEntries env clock =
     sortBy (compareUpload env) (collectEntries env clock 0 (metadataFiles env))"

definition generateIndex :: "u_env \<Rightarrow> u_clock \<Rightarrow> u_index run" where
  "generateIndex env clock =
     (if length (metadataFiles env) = 0
      then
        (let emptyIndex = \<lparr>u_version = ''1.0'', u_totalImages = 0,
                           u_generatedDate = nowEnd clock, u_images = [],
                           u_byCategory = Map.empty\<rparr>
         in if index_writable env
            then \<lparr>exit_code = 0, written = [(OUTPUT_PATH, emptyIndex)], warnings = []\<rparr>
            else fatal)
      else
        (let images = sortedEntries env clock in
         case groupByCategory Map.empty images of
           None \<Rightarrow> fatal
         | Some byCategory \<Rightarrow>
             (let index = \<lparr>u_version = ''1.0'', u_totalImages = length images,
                            u_generatedDate = nowEnd clock, u_images = images,
                            u_byCategory = byCategory\<rparr>
              in if index_writable env
                 then \<lparr>exit_code = 0, written = [(OUTPUT_PATH, index)], warnings = []\<rparr>
                 else fatal)))"

section \<open>Properties read off a run\<close>

definition timeGe :: "int option \<Rightarrow> int option \<Rightarrow> bool" where
  \<comment> \<open>\<^verbatim>\<open>>=\<close> on two time values: false as soon as one of them is \<^verbatim>\<open>NaN\<close>\<close>
  "timeGe a b = (case (a, b) of (Some ta, Some tb) \<Rightarrow> tb \<le> ta | _ \<Rightarrow> False)"

definition uploadTime :: "u_env \<Rightarrow> u_entry \<Rightarrow> int option" where
  "uploadTime env e = dateValue env (u_uploadDate e)"

definition hasUploadDate :: "metadata \<Rightarrow> bool" where
  \<comment> \<open>the sidecar has a truthy \<^verbatim>\<open>uploadDate\<close> or \<^verbatim>\<open>uploadedAt\<close>\<close>
  "hasUploadDate md = truthy (orElse (m_uploadDate md) (orElse (m_uploadedAt md) []))"

definition writtenDocs :: "'d run \<Rightarrow> 'd list" where
  "writtenDocs r = map snd (written r)"

definition writtenPaths :: "'d run \<Rightarrow> string list" where
  "writtenPaths r = map fst (written r)"

definition gameImages :: "g_index run \<Rightarrow> g_entry list list" where
  \<comment> \<open>the \<^verbatim>\<open>images\<close> list of every document a run wrote\<close>
  "gameImages r = map g_images (writtenDocs r)"

definition userImages :: "u_index run \<Rightarrow> u_entry list list" where
  "userImages r = map u_images (writtenDocs r)"

definition userBucket :: "u_index run \<Rightarrow> string \<Rightarrow> string list option list" where
  \<comment> \<open>\<^verbatim>\<open>byCategory[c]\<close> of every document a run wrote\<close>
  "userBucket r c = map (\<lambda>d. u_byCategory d c) (writtenDocs r)"

text \<open>
  Two notions in the words of the specification, against which the string functions of
  the script are compared: a maximal numeric substring of \<open>s\<close>, and a piece of \<open>s\<close>
  delimited by separators (or by the ends of \<open>s\<close>).
\<close>

definition maximalDigitRun :: "string \<Rightarrow> string \<Rightarrow> bool" where
  "maximalDigitRun s r \<longleftrightarrow>
     r \<noteq> [] \<and> list_all isDigit r \<and>
     (\<exists>pre post. s = pre @ r @ post
        \<and> (pre = [] \<or> \<not> isDigit (last pre))
        \<and> (post = [] \<or> \<not> isDigit (hd post)))"

definition delimitedPiece :: "(char \<Rightarrow> bool) \<Rightarrow> string \<Rightarrow> string \<Rightarrow> bool" where
  "delimitedPiece sep s w \<longleftrightarrow>
     list_all (\<lambda>c. \<not> sep c) w \<and>
     (\<exists>pre post. s = pre @ w @ post
        \<and> (pre = [] \<or> sep (last pre))
        \<and> (post = [] \<or> sep (hd post)))"

definition negTime :: "u_env \<Rightarrow> u_entry \<Rightarrow> int" where
  \<comment> \<open>the key by which a list with valid dates is sorted: newest first\<close>
  "negTime env e = - the (uploadTime env e)"

section \<open>Example inputs\<close>

definition noMetadata :: metadata where
  \<comment> \<open>the sidecar \<^verbatim>\<open>{}\<close>\<close>
  "noMetadata =
     \<lparr>m_filename = None, m_name = None, m_description = None, m_category = None,
      m_tags = None, m_dimensions = None, m_uploadedBy = None, m_uploadDate = None,
      m_uploadedAt = None, m_format = None\<rparr>"

definition exampleDates :: "string \<Rightarrow> int option" where
  \<comment> \<open>\<^verbatim>\<open>new Date(s).getTime()\<close> at the strings of the examples; \<^verbatim>\<open>new Date('not a date')\<close>
      is an invalid date\<close>
  "exampleDates =
     map_of [(''2024-01-01'', 1704067200000), (''2025-01-01'', 1735689600000),
             (''2026-01-01T00:00:00.000Z'', 1767225600000),
             (''2026-01-02T00:00:00.000Z'', 1767312000000)]"

definition exampleEnv :: "(string \<times> metadata) list \<Rightarrow> (string \<times> string list) list \<Rightarrow> u_env" where
  \<comment> \<open>sidecars in glob order with their contents, and directories with their entries\<close>
  "exampleEnv sidecars dirs =
     \<lparr>metadataFiles = map fst sidecars,
      readJSON = map_of sidecars,
      dirEntries = (\<lambda>d. case map_of dirs d of None \<Rightarrow> [] | Some ns \<Rightarrow> ns),
      statSize = (\<lambda>p. Some 2048),
      sharpMeta = (\<lambda>p. Some \<lparr>width = 10, height = 20\<rparr>),
      dateValue = exampleDates,
      index_writable = True\<rparr>"

definition clockA :: u_clock where
  "clockA = \<lparr>nowAt = (\<lambda>i. ''2026-01-01T00:00:00.000Z''), nowEnd = ''2026-01-01T00:00:00.000Z''\<rparr>"


definition u_three :: u_env where
  \<comment> \<open>three sidecars with valid dates; \<^verbatim>\<open>abc123\<close> has no image file at all\<close>
  "u_three =
     exampleEnv
       [(''user-content/images/other/2024/pic-metadata.json'',
           noMetadata\<lparr>m_category := Some ''screens'', m_uploadDate := Some ''2024-01-01'',
                      m_dimensions := Some \<lparr>width = 800, height = 600\<rparr>\<rparr>),
        (''user-content/images/other/2025/abc123-metadata.json'',
           noMetadata\<lparr>m_uploadDate := Some ''2025-01-01''\<rparr>),
        (''user-content/images/other/2025/new-metadata.json'',
           noMetadata\<lparr>m_category := Some ''screens'', m_uploadedAt := Some ''2025-01-01''\<rparr>)]
       [(''user-content/images/other/2024'', [''pic-metadata.json'', ''pic.png'', ''pic.webp'']),
        (''user-content/images/other/2025'',
           [''abc123-metadata.json'', ''new-metadata.json'', ''new.webp''])]"

definition u_none :: u_env where
  \<comment> \<open>no sidecar at all\<close>
  "u_none = exampleEnv [] []"

definition u_no_directory :: u_env where
  \<comment> \<open>\<^verbatim>\<open>user-content/images\<close> does not exist: the glob matches nothing and the write throws\<close>
  "u_no_directory = (exampleEnv [] [])\<lparr>index_writable := False\<rparr>"

definition u_same_basename :: u_env where
  \<comment> \<open>two sidecars named \<^verbatim>\<open>x-metadata.json\<close>, in two directories\<close>
  "u_same_basename =
     exampleEnv
       [(''user-content/images/a/x-metadata.json'', noMetadata\<lparr>m_uploadDate := Some ''2025-01-01''\<rparr>),
        (''user-content/images/b/x-metadata.json'', noMetadata\<lparr>m_uploadDate := Some ''2024-01-01''\<rparr>)]
       [(''user-content/images/a'', [''x-metadata.json'', ''x.png'']),
        (''user-content/images/b'', [''x-metadata.json'', ''x.jpg''])]"

definition u_invalid_date :: u_env where
  \<comment> \<open>the second sidecar's \<^verbatim>\<open>uploadDate\<close> is not a date\<close>
  "u_invalid_date =
     exampleEnv
       [(''user-content/images/a/p-metadata.json'', noMetadata\<lparr>m_uploadDate := Some ''2025-01-01''\<rparr>),
        (''user-content/images/a/q-metadata.json'', noMetadata\<lparr>m_uploadDate := Some ''not a date''\<rparr>)]
       [(''user-content/images/a'', [''p-metadata.json'', ''p.png'', ''q-metadata.json'', ''q.png''])]"

definition u_no_date :: u_env where
  \<comment> \<open>one sidecar, \<^verbatim>\<open>{}\<close>, beside its image\<close>
  "u_no_date =
     exampleEnv
       [(''user-content/images/a/p-metadata.json'', noMetadata)]
       [(''user-content/images/a'', [''p-metadata.json'', ''p.png''])]"

definition u_orphan :: u_env where
  \<comment> \<open>one sidecar that records its dimensions; the image file is gone\<close>
  "u_orphan =
     exampleEnv
       [(''user-content/images/a/gone-metadata.json'',
           noMetadata\<lparr>m_uploadDate := Some ''2025-01-01'',
                      m_dimensions := Some \<lparr>width = 800, height = 600\<rparr>\<rparr>)]
       [(''user-content/images/a'', [''gone-metadata.json''])]"

definition exampleGame :: "dirent list \<Rightarrow> g_env" where
  "exampleGame es =
     \<lparr>CDN_DIR = ''/repo/game-assets/images'', OUTPUT_DIR = ''/repo/game-assets/images'',
      cdn_root = Listing es,
      statOf = (\<lambda>p. Some \<lparr>st_size = 2048, st_mtime = ''2025-01-01T00:00:00.000Z''\<rparr>),
      sharpOf = (\<lambda>p. Some \<lparr>width = 64, height = 64\<rparr>),
      output_writable = True\<rparr>"

definition g_icons :: g_env where
  \<comment> \<open>\<^verbatim>\<open>fire.png\<close> directly under the scan root, and a directory \<^verbatim>\<open>spirits\<close>\<close>
  "g_icons = exampleGame [File ''fire.png'', Dir ''spirits'' [File ''Spirit_001.png'', File ''notes.txt'']]"

definition g_spirits :: g_env where
  \<comment> \<open>the file of the script's own comments, \<^verbatim>\<open>spirits/Spirit_001.png\<close>\<close>
  "g_spirits = exampleGame [Dir ''spirits'' [File ''Spirit_001.png'']]"

definition g_no_images :: g_env where
  \<comment> \<open>a scan root that holds no image file\<close>
  "g_no_images = exampleGame [File ''README.md'', Dir ''icons'' [], NoAccessDir ''private'']"

section \<open>Keywords of a game asset\<close>

lemma set_add: "set (add k ks) = insert k (set ks)"
  by (auto simp: add_def)

lemma distinct_add: "distinct ks \<Longrightarrow> distinct (add k ks)"
  by (simp add: add_def)

lemma set_addAll: "set (addAll xs ks) = set xs \<union> set ks"
  unfolding addAll_def by (induction xs arbitrary: ks) (auto simp: set_add)

lemma distinct_addAll: "distinct ks \<Longrightarrow> distinct (addAll xs ks)"
  unfolding addAll_def by (induction xs arbitrary: ks) (auto simp: distinct_add)

lemma lowerChar_idem: "lowerChar (lowerChar c) = lowerChar c"
  by (simp add: lowerChar_def)

lemma isLowerCase_toLowerCase: "isLowerCase (toLowerCase s)"
  by (simp add: isLowerCase_def toLowerCase_def lowerChar_idem)

lemma isLowerCase_iff: "isLowerCase s \<longleftrightarrow> (\<forall>c \<in> set s. lowerChar c = c)"
  unfolding isLowerCase_def toLowerCase_def by (induction s) auto

lemma split_on_not_Nil: "split_on sep s \<noteq> []"
  by (induction s) (auto split: list.splits)

lemma split_on_chars: "w \<in> set (split_on sep s) \<Longrightarrow> set w \<subseteq> set s"
proof (induction s arbitrary: w)
  case Nil
  then show ?case by simp
next
  case (Cons c cs)
  show ?case
  proof (cases "sep c")
    case True
    with Cons show ?thesis by auto
  next
    case False
    obtain v vs where sp: "split_on sep cs = v # vs"
      using split_on_not_Nil[of sep cs] by (cases "split_on sep cs") auto
    with Cons.prems False have "w = c # v \<or> w \<in> set vs" by simp
    then show ?thesis
      using Cons.IH[of v] Cons.IH[of w] sp by auto
  qed
qed

lemma digitRuns_chars: "w \<in> set (digitRuns cur s) \<Longrightarrow> set w \<subseteq> set cur \<union> set s"
  by (induction cur s arbitrary: w rule: digitRuns.induct) (auto split: if_splits)

lemma isLowerCase_sub: "isLowerCase s \<Longrightarrow> set w \<subseteq> set s \<Longrightarrow> isLowerCase w"
  by (auto simp: isLowerCase_iff)

lemma matchDigits_lower: "k \<in> set (matchDigits (toLowerCase s)) \<Longrightarrow> isLowerCase k"
  using digitRuns_chars[of k "[]" "toLowerCase s"] isLowerCase_sub[OF isLowerCase_toLowerCase]
  by (simp add: matchDigits_def)

lemma split_lower: "k \<in> set (split_on sep (toLowerCase s)) \<Longrightarrow> isLowerCase k"
  using split_on_chars[of k sep "toLowerCase s"] isLowerCase_sub[OF isLowerCase_toLowerCase]
  by simp

lemma generateKeywords_eq:
  "generateKeywords filename category imagePath =
     addAll (filter (\<lambda>word. 1 < length word) (split_on isUnderscoreOrDash (toLowerCase (stripExt filename))))
       (addAll (matchDigits (toLowerCase (stripExt filename)))
          (addAll (filter (\<lambda>part. part \<noteq> ''images'' \<and> part \<noteq> ''content'' \<and> part \<noteq> filename)
                     (filter truthy (split_on isSlash imagePath)))
             (add category (add (stripExt filename) []))))"
  by (simp add: generateKeywords_def Let_def)

lemma set_keywords_chain:
  "set (addAll ws (addAll ns (addAll (filter P (filter Q ps)) (add c (add a [])))))
     = {a, c} \<union> {x \<in> set ps. Q x \<and> P x} \<union> set ns \<union> set ws"
  by (auto simp: set_addAll set_add)

subsection \<open>Digit runs and pieces\<close>

lemma maximal_all_digits:
  assumes "list_all isDigit cur"
  shows "maximalDigitRun cur r \<longleftrightarrow> r = cur \<and> cur \<noteq> []"
proof
  assume m: "maximalDigitRun cur r"
  then obtain pre post where p: "cur = pre @ r @ post" "pre = [] \<or> \<not> isDigit (last pre)"
    "post = [] \<or> \<not> isDigit (hd post)" "r \<noteq> []"
    by (auto simp: maximalDigitRun_def)
  have "pre = []"
  proof (rule ccontr)
    assume "pre \<noteq> []"
    then have "last pre \<in> set cur" using p(1) by auto
    with assms have "isDigit (last pre)" by (simp add: list_all_iff)
    with p(2) \<open>pre \<noteq> []\<close> show False by simp
  qed
  moreover have "post = []"
  proof (rule ccontr)
    assume "post \<noteq> []"
    then have "hd post \<in> set cur" using p(1) by auto
    with assms have "isDigit (hd post)" by (simp add: list_all_iff)
    with p(3) \<open>post \<noteq> []\<close> show False by simp
  qed
  ultimately show "r = cur \<and> cur \<noteq> []" using p by simp
next
  assume "r = cur \<and> cur \<noteq> []"
  then show "maximalDigitRun cur r"
    using assms unfolding maximalDigitRun_def
    by (intro conjI exI[of _ "[]"]) auto
qed

lemma maximal_after_separator:
  assumes cur: "list_all isDigit cur" and c: "\<not> isDigit c"
  shows "maximalDigitRun (cur @ c # cs) r \<longleftrightarrow> (r = cur \<and> cur \<noteq> []) \<or> maximalDigitRun cs r"
proof
  assume "maximalDigitRun (cur @ c # cs) r"
  then obtain pre post where p: "cur @ c # cs = pre @ r @ post" "pre = [] \<or> \<not> isDigit (last pre)"
    "post = [] \<or> \<not> isDigit (hd post)" "r \<noteq> []" "list_all isDigit r"
    by (auto simp: maximalDigitRun_def)
  from p(1) consider us where "cur = pre @ us" "us @ c # cs = r @ post"
    | us where "cur @ us = pre" "c # cs = us @ r @ post" "us \<noteq> []"
    by (auto simp: append_eq_append_conv2) (metis append_Nil2)
  then show "(r = cur \<and> cur \<noteq> []) \<or> maximalDigitRun cs r"
  proof cases
    case 1
    have "pre = []"
    proof (rule ccontr)
      assume "pre \<noteq> []"
      then have "last pre \<in> set cur" using 1(1) by auto
      with cur have "isDigit (last pre)" by (simp add: list_all_iff)
      with p(2) \<open>pre \<noteq> []\<close> show False by simp
    qed
    with 1 have eq: "cur @ c # cs = r @ post" by simp
    from eq consider vs where "cur = r @ vs" "vs @ c # cs = post"
      | vs where "cur @ vs = r" "c # cs = vs @ post" "vs \<noteq> []"
      by (auto simp: append_eq_append_conv2) (metis append_Nil2)
    then show ?thesis
    proof cases
      case 1
      have "vs = []"
      proof (rule ccontr)
        assume "vs \<noteq> []"
        then have "hd post = hd vs" "hd vs \<in> set cur" "post \<noteq> []" using 1 by auto
        with cur p(3) show False by (simp add: list_all_iff)
      qed
      with 1 p(4) show ?thesis by simp
    next
      case 2
      then have "c \<in> set r" by (cases vs) auto
      with p(5) c show ?thesis by (simp add: list_all_iff)
    qed
  next
    case 2
    then obtain us' where us: "us = c # us'" "cs = us' @ r @ post" by (cases us) auto
    have "pre = cur @ c # us'" using 2(1) us(1) by simp
    with p(2) have "us' = [] \<or> \<not> isDigit (last us')" by (cases "us' = []") auto
    with us(2) p(3,4,5) show ?thesis
      unfolding maximalDigitRun_def by blast
  qed
next
  assume "(r = cur \<and> cur \<noteq> []) \<or> maximalDigitRun cs r"
  then show "maximalDigitRun (cur @ c # cs) r"
  proof
    assume "r = cur \<and> cur \<noteq> []"
    then show ?thesis
      using cur c unfolding maximalDigitRun_def
      by (intro conjI exI[of _ "[]"] exI[of _ "c # cs"]) auto
  next
    assume "maximalDigitRun cs r"
    then obtain pre post where p: "cs = pre @ r @ post" "pre = [] \<or> \<not> isDigit (last pre)"
      "post = [] \<or> \<not> isDigit (hd post)" "r \<noteq> []" "list_all isDigit r"
      by (auto simp: maximalDigitRun_def)
    have "cur @ c # cs = (cur @ c # pre) @ r @ post" using p(1) by simp
    moreover have "\<not> isDigit (last (cur @ c # pre))" using p(2) c by auto
    ultimately show ?thesis
      using p(3,4,5) unfolding maximalDigitRun_def by blast
  qed
qed

lemma digitRuns_maximal:
  "list_all isDigit cur \<Longrightarrow> r \<in> set (digitRuns cur s) \<longleftrightarrow> maximalDigitRun (cur @ s) r"
proof (induction s arbitrary: cur)
  case Nil
  then show ?case by (auto simp: maximal_all_digits)
next
  case (Cons c cs)
  show ?case
  proof (cases "isDigit c")
    case True
    with Cons.prems have "list_all isDigit (cur @ [c])" by simp
    from Cons.IH[OF this] True show ?thesis by simp
  next
    case False
    have "r \<in> set (digitRuns [] cs) \<longleftrightarrow> maximalDigitRun cs r"
      using Cons.IH[of "[]"] by simp
    with False show ?thesis
      by (auto simp: maximal_after_separator[OF Cons.prems False])
  qed
qed

lemma matchDigits_maximal: "set (matchDigits s) = {r. maximalDigitRun s r}"
  using digitRuns_maximal[of "[]" _ s] by (auto simp: matchDigits_def)

lemma hd_split_on: "hd (split_on sep s) = takeWhile (\<lambda>c. \<not> sep c) s"
  by (induction s) (auto split: list.splits simp: split_on_not_Nil)

lemma split_on_hd_tl: "split_on sep s = takeWhile (\<lambda>c. \<not> sep c) s # tl (split_on sep s)"
  using split_on_not_Nil[of sep s] hd_split_on[of sep s] by (cases "split_on sep s") auto

lemma tl_split_on_Cons:
  "tl (split_on sep (c # cs)) = (if sep c then split_on sep cs else tl (split_on sep cs))"
  using split_on_not_Nil[of sep cs] by (cases "split_on sep cs") auto

lemma first_piece:
  assumes "list_all (\<lambda>c. \<not> sep c) w" "s = w @ post" "post = [] \<or> sep (hd post)"
  shows "w = takeWhile (\<lambda>c. \<not> sep c) s"
proof (cases post)
  case Nil
  have "takeWhile (\<lambda>c. \<not> sep c) w = w"
    using assms(1) by (simp add: list_all_iff)
  then show ?thesis using Nil assms(2) by (metis append_Nil2)
next
  case (Cons a as)
  with assms have "sep a" by simp
  with assms(1,2) Cons show ?thesis
    by (simp add: takeWhile_append list_all_iff takeWhile_tail)
qed

lemma takeWhile_piece:
  "\<exists>post. s = takeWhile (\<lambda>c. \<not> sep c) s @ post \<and> (post = [] \<or> sep (hd post))"
proof -
  have "dropWhile (\<lambda>c. \<not> sep c) s = [] \<or> sep (hd (dropWhile (\<lambda>c. \<not> sep c) s))"
    using hd_dropWhile[of "\<lambda>c. \<not> sep c" s] by auto
  then show ?thesis
    by (intro exI[of _ "dropWhile (\<lambda>c. \<not> sep c) s"]) simp
qed

lemma later_pieces:
  "w \<in> set (tl (split_on sep s)) \<longleftrightarrow>
     list_all (\<lambda>c. \<not> sep c) w \<and>
     (\<exists>pre post. s = pre @ w @ post \<and> pre \<noteq> [] \<and> sep (last pre) \<and> (post = [] \<or> sep (hd post)))"
  (is "?L s \<longleftrightarrow> ?R s")
proof (induction s)
  case Nil
  then show ?case by simp
next
  case (Cons c cs)
  show ?case
  proof (cases "sep c")
    case True
    have "?L (c # cs) \<longleftrightarrow> w = takeWhile (\<lambda>c. \<not> sep c) cs \<or> ?L cs"
      using True split_on_hd_tl[of sep cs] by (simp add: tl_split_on_Cons) (metis set_ConsD list.set_intros)
    also have "\<dots> \<longleftrightarrow> ?R (c # cs)"
    proof
      assume "w = takeWhile (\<lambda>c. \<not> sep c) cs \<or> ?L cs"
      then show "?R (c # cs)"
      proof
        assume w: "w = takeWhile (\<lambda>c. \<not> sep c) cs"
        from takeWhile_piece[of cs sep] obtain post where
          post: "cs = w @ post" "post = [] \<or> sep (hd post)" unfolding w by blast
        have "list_all (\<lambda>c. \<not> sep c) w"
          unfolding w by (auto simp: list_all_iff dest: set_takeWhileD)
        moreover have "c # cs = [c] @ w @ post" using post(1) by simp
        ultimately show ?thesis using True post(2) by (metis last.simps not_Cons_self2)
      next
        assume "?L cs"
        with Cons.IH obtain pre post where p: "list_all (\<lambda>c. \<not> sep c) w" "cs = pre @ w @ post"
          "pre \<noteq> []" "sep (last pre)" "post = [] \<or> sep (hd post)" by blast
        have "c # cs = (c # pre) @ w @ post" using p(2) by simp
        moreover have "sep (last (c # pre))" using p(3,4) by simp
        ultimately show ?thesis using p(1,5) by (metis list.distinct(1))
      qed
    next
      assume "?R (c # cs)"
      then obtain pre post where p: "list_all (\<lambda>c. \<not> sep c) w" "c # cs = pre @ w @ post"
        "pre \<noteq> []" "sep (last pre)" "post = [] \<or> sep (hd post)" by blast
      from p(2,3) obtain pre' where pre': "pre = c # pre'" "cs = pre' @ w @ post"
        by (cases pre) auto
      show "w = takeWhile (\<lambda>c. \<not> sep c) cs \<or> ?L cs"
      proof (cases "pre' = []")
        case True
        with pre'(2) first_piece[OF p(1) _ p(5), of cs] show ?thesis by simp
      next
        case False
        with pre' p(4) have "sep (last pre')" by simp
        with False pre'(2) p(1,5) Cons.IH show ?thesis by blast
      qed
    qed
    finally show ?thesis .
  next
    case False
    have "?L (c # cs) \<longleftrightarrow> ?L cs"
      unfolding tl_split_on_Cons using False by simp
    also have "\<dots> \<longleftrightarrow> ?R cs" by (rule Cons.IH)
    also have "\<dots> \<longleftrightarrow> ?R (c # cs)"
    proof
      assume "?R cs"
      then obtain pre post where p: "list_all (\<lambda>c. \<not> sep c) w" "cs = pre @ w @ post"
        "pre \<noteq> []" "sep (last pre)" "post = [] \<or> sep (hd post)" by blast
      have "c # cs = (c # pre) @ w @ post" using p(2) by simp
      moreover have "sep (last (c # pre))" using p(3,4) by simp
      ultimately show "?R (c # cs)" using p(1,5) by (metis list.distinct(1))
    next
      assume "?R (c # cs)"
      then obtain pre post where p: "list_all (\<lambda>c. \<not> sep c) w" "c # cs = pre @ w @ post"
        "pre \<noteq> []" "sep (last pre)" "post = [] \<or> sep (hd post)" by blast
      from p(2,3) obtain pre' where pre': "pre = c # pre'" "cs = pre' @ w @ post"
        by (cases pre) auto
      have "pre' \<noteq> []" using pre'(1) p(4) False by auto
      moreover from this pre'(1) p(4) have "sep (last pre')" by simp
      ultimately show "?R cs" using pre'(2) p(1,5) by blast
    qed
    finally show ?thesis .
  qed
qed

lemma split_on_delimited: "set (split_on sep s) = {w. delimitedPiece sep s w}"
proof -
  have "w \<in> set (split_on sep s) \<longleftrightarrow> delimitedPiece sep s w" for w
  proof -
    have "w \<in> set (split_on sep s) \<longleftrightarrow>
            w = takeWhile (\<lambda>c. \<not> sep c) s \<or> w \<in> set (tl (split_on sep s))"
      using split_on_hd_tl[of sep s] by (metis set_ConsD list.set_intros)
    also have "\<dots> \<longleftrightarrow> delimitedPiece sep s w"
    proof
      assume "w = takeWhile (\<lambda>c. \<not> sep c) s \<or> w \<in> set (tl (split_on sep s))"
      then show "delimitedPiece sep s w"
      proof
        assume w: "w = takeWhile (\<lambda>c. \<not> sep c) s"
        from takeWhile_piece[of s sep] obtain post where
          "s = [] @ w @ post" "post = [] \<or> sep (hd post)" unfolding w by auto
        moreover have "list_all (\<lambda>c. \<not> sep c) w"
          unfolding w by (auto simp: list_all_iff dest: set_takeWhileD)
        ultimately show ?thesis unfolding delimitedPiece_def by blast
      next
        assume "w \<in> set (tl (split_on sep s))"
        then show ?thesis unfolding later_pieces delimitedPiece_def by blast
      qed
    next
      assume "delimitedPiece sep s w"
      then obtain pre post where p: "list_all (\<lambda>c. \<not> sep c) w" "s = pre @ w @ post"
        "pre = [] \<or> sep (last pre)" "post = [] \<or> sep (hd post)"
        unfolding delimitedPiece_def by blast
      show "w = takeWhile (\<lambda>c. \<not> sep c) s \<or> w \<in> set (tl (split_on sep s))"
      proof (cases "pre = []")
        case True
        with p(2) first_piece[OF p(1) _ p(4), of s] show ?thesis by simp
      next
        case False
        with p show ?thesis unfolding later_pieces by blast
      qed
    qed
    finally show ?thesis .
  qed
  then show ?thesis by blast
qed

subsection \<open>The keyword set\<close>

text \<open>
  What the helper returns, for any three arguments: as a set and without repetition, the
  name without its extension, the category, the segments of the path that are kept, the
  maximal digit runs of the lowercased name and its pieces longer than one character.
\<close>

lemma generateKeywords_set:
  "set (generateKeywords filename category imagePath) =
     {stripExt filename, category}
     \<union> {part. delimitedPiece isSlash imagePath part
          \<and> part \<noteq> [] \<and> part \<noteq> ''images'' \<and> part \<noteq> ''content'' \<and> part \<noteq> filename}
     \<union> {r. maximalDigitRun (toLowerCase (stripExt filename)) r}
     \<union> {w. delimitedPiece isUnderscoreOrDash (toLowerCase (stripExt filename)) w \<and> 1 < length w}
   \<and> distinct (generateKeywords filename category imagePath)
   \<and> (\<forall>k. maximalDigitRun (toLowerCase (stripExt filename)) k
            \<or> delimitedPiece isUnderscoreOrDash (toLowerCase (stripExt filename)) k
          \<longrightarrow> isLowerCase k)"
proof (intro conjI allI impI)
  have parts: "{part. delimitedPiece isSlash imagePath part
          \<and> part \<noteq> [] \<and> part \<noteq> ''images'' \<and> part \<noteq> ''content'' \<and> part \<noteq> filename}
     = {part \<in> set (split_on isSlash imagePath).
          part \<noteq> [] \<and> part \<noteq> ''images'' \<and> part \<noteq> ''content'' \<and> part \<noteq> filename}"
    unfolding split_on_delimited by simp
  have pieces: "{w. delimitedPiece isUnderscoreOrDash (toLowerCase (stripExt filename)) w \<and> 1 < length w}
     = {w \<in> set (split_on isUnderscoreOrDash (toLowerCase (stripExt filename))). 1 < length w}"
    unfolding split_on_delimited by simp
  show "set (generateKeywords filename category imagePath) =
     {stripExt filename, category}
     \<union> {part. delimitedPiece isSlash imagePath part
          \<and> part \<noteq> [] \<and> part \<noteq> ''images'' \<and> part \<noteq> ''content'' \<and> part \<noteq> filename}
     \<union> {r. maximalDigitRun (toLowerCase (stripExt filename)) r}
     \<union> {w. delimitedPiece isUnderscoreOrDash (toLowerCase (stripExt filename)) w \<and> 1 < length w}"
    unfolding parts pieces matchDigits_maximal[symmetric]
    unfolding generateKeywords_eq set_keywords_chain truthy_def set_filter by (rule refl)
  show "distinct (generateKeywords filename category imagePath)"
    unfolding generateKeywords_eq by (intro distinct_addAll distinct_add) simp
next
  fix k
  assume "maximalDigitRun (toLowerCase (stripExt filename)) k
            \<or> delimitedPiece isUnderscoreOrDash (toLowerCase (stripExt filename)) k"
  then have "k \<in> set (matchDigits (toLowerCase (stripExt filename)))
           \<or> k \<in> set (split_on isUnderscoreOrDash (toLowerCase (stripExt filename)))"
    by (simp add: matchDigits_maximal split_on_delimited)
  then show "isLowerCase k"
    using matchDigits_lower split_lower by blast
qed

lemma spirit_path_segments: "split_on isSlash ''/spirits/Spirit_001.png'' = [[], ''spirits'', ''Spirit_001.png'']"
    by code_simp
lemma spirit_pieces: "split_on isUnderscoreOrDash ''spirit_001'' = [''spirit'', ''001'']" by code_simp
lemma spirit_digits: "matchDigits ''spirit_001'' = [''001'']" by code_simp

lemma spirit_segment_set: "{part. delimitedPiece isSlash ''/spirits/Spirit_001.png'' part
            \<and> part \<noteq> [] \<and> part \<noteq> ''images'' \<and> part \<noteq> ''content'' \<and> part \<noteq> ''Spirit_001.png''}
          = {''spirits''}"
proof -
  have "{part. delimitedPiece isSlash ''/spirits/Spirit_001.png'' part
            \<and> part \<noteq> [] \<and> part \<noteq> ''images'' \<and> part \<noteq> ''content'' \<and> part \<noteq> ''Spirit_001.png''}
     = {part \<in> set (split_on isSlash ''/spirits/Spirit_001.png'').
            part \<noteq> [] \<and> part \<noteq> ''images'' \<and> part \<noteq> ''content'' \<and> part \<noteq> ''Spirit_001.png''}"
    unfolding split_on_delimited by simp
  also have "\<dots> = {''spirits''}" unfolding spirit_path_segments by auto
  finally show ?thesis .
qed

lemma spirit_piece_set: "{w. delimitedPiece isUnderscoreOrDash ''spirit_001'' w \<and> 1 < length w} = {''spirit'', ''001''}"
proof -
  have "{w. delimitedPiece isUnderscoreOrDash ''spirit_001'' w \<and> 1 < length w}
      = {w \<in> set (split_on isUnderscoreOrDash ''spirit_001''). 1 < length w}"
    unfolding split_on_delimited by simp
  also have "\<dots> = {''spirit'', ''001''}" unfolding spirit_pieces by auto
  finally show ?thesis .
qed

lemma spirit_digit_set: "{r. maximalDigitRun ''spirit_001'' r} = {''001''}"
    using matchDigits_maximal[of "''spirit_001''"] unfolding spirit_digits by simp

section \<open>Facts about the user-content run\<close>

subsection \<open>The sort\<close>

lemma set_insertBy: "set (insertBy cmp x ys) = insert x (set ys)"
  by (induction ys) auto

lemma length_insertBy: "length (insertBy cmp x ys) = Suc (length ys)"
  by (induction ys) auto

lemma set_sortBy: "set (sortBy cmp xs) = set xs"
  unfolding sortBy_def by (induction xs) (auto simp: set_insertBy)

lemma length_sortBy: "length (sortBy cmp xs) = length xs"
  unfolding sortBy_def by (induction xs) (auto simp: length_insertBy)

lemma insertBy_valid:
  assumes "uploadTime env x \<noteq> None" "\<forall>y \<in> set ys. uploadTime env y \<noteq> None"
  shows "insertBy (compareUpload env) x ys = insort_key (negTime env) x ys"
  using assms
  by (induction ys) (auto simp: sortCompare_def compareUpload_def uploadTime_def negTime_def)

lemma sortBy_valid:
  assumes "\<forall>y \<in> set xs. uploadTime env y \<noteq> None"
  shows "sortBy (compareUpload env) xs = sort_key (negTime env) xs"
  using assms
proof (induction xs)
  case Nil
  then show ?case by (simp add: sortBy_def)
next
  case (Cons x xs)
  then have ih: "sortBy (compareUpload env) xs = sort_key (negTime env) xs" by simp
  have "sortBy (compareUpload env) (x # xs) = insertBy (compareUpload env) x (sortBy (compareUpload env) xs)"
    by (simp add: sortBy_def)
  also have "\<dots> = insort_key (negTime env) x (sort_key (negTime env) xs)"
    using Cons.prems by (simp add: ih insertBy_valid)
  finally show ?case by simp
qed

subsection \<open>The grouping\<close>

lemma groupByCategory_Some:
  "groupByCategory acc xs = Some m \<Longrightarrow>
   m c = (if c \<in> u_category ` set xs
          then Some ((case acc c of None \<Rightarrow> [] | Some ids \<Rightarrow> ids)
                     @ map u_id (filter (\<lambda>e. u_category e = c) xs))
          else acc c)"
proof (induction xs arbitrary: acc)
  case Nil
  then show ?case by simp
next
  case (Cons x xs)
  let ?acc = "acc(u_category x \<mapsto> (case acc (u_category x) of None \<Rightarrow> [] | Some ids \<Rightarrow> ids) @ [u_id x])"
  from Cons.prems have g: "groupByCategory ?acc xs = Some m"
    by (simp add: Let_def split: if_splits)
  show ?case
    unfolding Cons.IH[OF g] by (auto simp: filter_empty_conv image_iff split: option.splits)
qed

lemma groupByCategory_None:
  "groupByCategory acc xs = None \<longleftrightarrow> (\<exists>e \<in> set xs. u_category e \<in> set protoKeys)"
  by (induction xs arbitrary: acc) (auto simp: Let_def)

subsection \<open>The loop\<close>

lemma collectEntries_mem:
  "e \<in> set (collectEntries env clock k fs) \<longleftrightarrow>
     (\<exists>j < length fs. buildEntry env (nowAt clock (k + j)) (fs ! j) = Some e)"
proof (induction fs arbitrary: k)
  case Nil
  then show ?case by simp
next
  case (Cons f fs)
  have "(\<exists>j < length (f # fs). buildEntry env (nowAt clock (k + j)) ((f # fs) ! j) = Some e)
        \<longleftrightarrow> buildEntry env (nowAt clock k) f = Some e
            \<or> (\<exists>j < length fs. buildEntry env (nowAt clock (Suc k + j)) (fs ! j) = Some e)"
    by (auto simp: less_Suc_eq_0_disj)
  then show ?case
    using Cons.IH[of "Suc k"] by (auto split: option.splits)
qed

lemma written_generateIndex:
  assumes "(p, d) \<in> set (written (generateIndex env clock))"
  shows "p = OUTPUT_PATH" and "u_images d = sortedEntries env clock"
    and "u_totalImages d = length (u_images d)"
    and "groupByCategory Map.empty (u_images d) = Some (u_byCategory d)"
    and "u_generatedDate d = nowEnd clock"
    and "exit_code (generateIndex env clock) = 0"
proof -
  have e: "metadataFiles env = [] \<Longrightarrow> sortedEntries env clock = []"
    by (simp add: sortedEntries_def sortBy_def)
  from assms show "p = OUTPUT_PATH" and "u_images d = sortedEntries env clock"
    and "u_totalImages d = length (u_images d)"
    and "groupByCategory Map.empty (u_images d) = Some (u_byCategory d)"
    and "u_generatedDate d = nowEnd clock"
    and "exit_code (generateIndex env clock) = 0"
    using e by (auto simp: generateIndex_def Let_def fatal_def split: if_splits option.splits)
qed

section \<open>Facts about the game-asset run\<close>

lemma written_buildImageIndexes:
  assumes "(p, d) \<in> set (written (buildImageIndexes env now))"
  shows "p = INDEX_PATH env"
    and "g_images d = processImages env (getImagesInDirectory (CDN_DIR env) (cdn_root env))"
    and "g_totalImages d = length (g_images d)"
    and "g_generatedAt d = now"
    and "exit_code (buildImageIndexes env now) = 0"
  using assms by (auto simp: buildImageIndexes_def Let_def split: if_splits)


section \<open>The keywords of an indexed file\<close>

lemma processImage_keywords:
  "processImage env f = Some e \<Longrightarrow>
     g_keywords e = generateKeywords (g_filename e) (g_category e) (g_path e)"
  by (auto simp: processImage_def Let_def split: option.splits)

lemma processImages_mem:
  "e \<in> set (processImages env fs) \<Longrightarrow> \<exists>f \<in> set fs. processImage env f = Some e"
  by (induction fs) (auto split: option.splits)

lemma lowerChar_fixed: "lowerChar c = c \<longleftrightarrow> c \<notin> set ''ABCDEFGHIJKLMNOPQRSTUVWXYZ''"
  by (simp add: lowerChar_def)

lemma isLowerCase_no_capital:
  "isLowerCase s \<longleftrightarrow> (\<forall>c \<in> set s. c \<notin> set ''ABCDEFGHIJKLMNOPQRSTUVWXYZ'')"
  unfolding isLowerCase_iff lowerChar_fixed ..

text \<open>
  Claim C3, as amended. Take any entry of an index document that the game-asset builder
  writes, with an ASCII file name. Its \<^verbatim>\<open>keywords\<close> field is, as a set and without repetition,
  the union of: the entry's file name without its extension; the entry's category; every
  non-empty segment of the entry's path other than \<^verbatim>\<open>images\<close>, \<^verbatim>\<open>content\<close> and the file name
  itself; every maximal run of digits of the lowercased file name without its extension;
  and every underscore- or dash-delimited piece, longer than one character, of the
  lowercased file name without its extension. The digit runs and the pieces are read from
  the name after the extension is cut, not from the whole file name as the claim has it.
  They are lowercase; the name without extension, the category and the path segments are
  taken over as they are spelled, so nothing makes them lowercase.
\<close>

theorem keywords_of_indexed_entry:
  assumes "(p, d) \<in> set (written (buildImageIndexes env now))"
    and "e \<in> set (g_images d)"
    and "list_all isAscii (g_filename e)"
  shows "set (g_keywords e) =
     {stripExt (g_filename e), g_category e}
     \<union> {part. delimitedPiece isSlash (g_path e) part
          \<and> part \<noteq> [] \<and> part \<noteq> ''images'' \<and> part \<noteq> ''content'' \<and> part \<noteq> g_filename e}
     \<union> {r. maximalDigitRun (toLowerCase (stripExt (g_filename e))) r}
     \<union> {w. delimitedPiece isUnderscoreOrDash (toLowerCase (stripExt (g_filename e))) w
          \<and> 1 < length w}
   \<and> distinct (g_keywords e)
   \<and> (\<forall>k. maximalDigitRun (toLowerCase (stripExt (g_filename e))) k
            \<or> delimitedPiece isUnderscoreOrDash (toLowerCase (stripExt (g_filename e))) k
          \<longrightarrow> isLowerCase k)"
proof -
  have "e \<in> set (processImages env (getImagesInDirectory (CDN_DIR env) (cdn_root env)))"
    using written_buildImageIndexes(2)[OF assms(1)] assms(2) by simp
  then obtain f where "processImage env f = Some e"
    using processImages_mem by blast
  then have "g_keywords e = generateKeywords (g_filename e) (g_category e) (g_path e)"
    by (rule processImage_keywords)
  then show ?thesis
    using generateKeywords_set[of "g_filename e" "g_category e" "g_path e"] by simp
qed

text \<open>
  The theorem at the one entry of a scan root that holds \<^verbatim>\<open>spirits/Spirit_001.png\<close>: the
  run writes a document, the file name is ASCII, and the \<^verbatim>\<open>keywords\<close> field of the entry
  is the set of \<^verbatim>\<open>Spirit_001\<close>, \<^verbatim>\<open>spirits\<close>, \<^verbatim>\<open>001\<close> and \<^verbatim>\<open>spirit\<close>.
\<close>

theorem keywords_of_indexed_entry_witness:
  "written (buildImageIndexes g_spirits ''2025-06-01T00:00:00.000Z'') \<noteq> []
   \<and> map g_filename (g_images (snd (hd (written (buildImageIndexes g_spirits ''2025-06-01T00:00:00.000Z'')))))
       = [''Spirit_001.png'']
   \<and> list_all isAscii ''Spirit_001.png''
   \<and> set (g_keywords (hd (g_images (snd (hd (written (buildImageIndexes g_spirits ''2025-06-01T00:00:00.000Z'')))))))
       = {''Spirit_001'', ''spirits'', ''001'', ''spirit''}
   \<and> distinct (g_keywords (hd (g_images (snd (hd (written (buildImageIndexes g_spirits ''2025-06-01T00:00:00.000Z'')))))))
   \<and> maximalDigitRun ''spirit_001'' ''001'' \<and> isLowerCase ''001''
   \<and> delimitedPiece isUnderscoreOrDash ''spirit_001'' ''spirit'' \<and> isLowerCase ''spirit''"
proof -
  let ?r = "buildImageIndexes g_spirits ''2025-06-01T00:00:00.000Z''"
  let ?d = "snd (hd (written ?r))"
  let ?e = "hd (g_images ?d)"
  have ne: "written ?r \<noteq> []" by code_simp
  then have mem: "(fst (hd (written ?r)), ?d) \<in> set (written ?r)" by simp
  have fs: "map g_filename (g_images ?d) = [''Spirit_001.png'']" by code_simp
  then have "g_images ?d \<noteq> []" by auto
  then have el: "?e \<in> set (g_images ?d)" by simp
  have fn: "g_filename ?e = ''Spirit_001.png''" by code_simp
  have ca: "g_category ?e = ''spirits''" by code_simp
  have pa: "g_path ?e = ''/spirits/Spirit_001.png''" by code_simp
  have asc: "list_all isAscii ''Spirit_001.png''" by code_simp
  then have asc': "list_all isAscii (g_filename ?e)" unfolding fn .
  have s: "stripExt ''Spirit_001.png'' = ''Spirit_001''" by code_simp
  have l: "toLowerCase ''Spirit_001'' = ''spirit_001''" by code_simp
  have m: "maximalDigitRun ''spirit_001'' ''001''" using spirit_digit_set by blast
  have n: "delimitedPiece isUnderscoreOrDash ''spirit_001'' ''spirit''" using spirit_piece_set by blast
  note t = keywords_of_indexed_entry[OF mem el asc',
      unfolded fn ca pa s l spirit_segment_set spirit_piece_set spirit_digit_set]
  from t have a: "set (g_keywords ?e)
        = {''Spirit_001'', ''spirits''} \<union> {''spirits''} \<union> {''001''} \<union> {''spirit'', ''001''}"
    by (rule conjunct1)
  from t have b: "distinct (g_keywords ?e)"
    by (rule conjunct1[OF conjunct2])
  from t have c: "\<forall>k. maximalDigitRun ''spirit_001'' k \<or> delimitedPiece isUnderscoreOrDash ''spirit_001'' k
              \<longrightarrow> isLowerCase k"
    by (rule conjunct2[OF conjunct2])
  have c1: "isLowerCase ''001''" using c m by (rule_tac mp[OF spec[OF c]]) (rule disjI1)
  have c2: "isLowerCase ''spirit''" using c n by (rule_tac mp[OF spec[OF c]]) (rule disjI2)
  have e: "{''Spirit_001'', ''spirits''} \<union> {''spirits''} \<union> {''001''} \<union> {''spirit'', ''001''}
      = {''Spirit_001'', ''spirits'', ''001'', ''spirit''}"
    by (simp only: Un_insert_left Un_insert_right Un_empty_left Un_empty_right insert_absorb2 insert_commute)
  show ?thesis
    unfolding a e using ne fs asc b m n c1 c2 by (intro conjI refl)
qed

text \<open>
  Claim C3 as it is written says that every keyword is lowercase, and takes the digit runs
  and the pieces from the lowercased file name. For \<^verbatim>\<open>spirits/Spirit_001.png\<close>, the
  example of the script's own comments, the entry's \<^verbatim>\<open>keywords\<close> field holds
  \<^verbatim>\<open>Spirit_001\<close>, which is not lowercase, and it does not hold \<^verbatim>\<open>001.png\<close>, which is a
  piece of the lowercased file name.
\<close>

theorem indexed_keyword_not_lowercase:
  "map g_filename (concat (gameImages (buildImageIndexes g_spirits ''2025-06-01T00:00:00.000Z'')))
     = [''Spirit_001.png'']
   \<and> list_all isAscii ''Spirit_001.png''
   \<and> map g_keywords (concat (gameImages (buildImageIndexes g_spirits ''2025-06-01T00:00:00.000Z'')))
     = [[''Spirit_001'', ''spirits'', ''001'', ''spirit'']]
   \<and> \<not> isLowerCase ''Spirit_001''
   \<and> split_on isUnderscoreOrDash (toLowerCase ''Spirit_001.png'') = [''spirit'', ''001.png'']"
  by code_simp

section \<open>Counts\<close>

text \<open>
  Claim C6. Every index document a builder writes has \<^verbatim>\<open>totalImages\<close> equal to the length
  of its \<^verbatim>\<open>images\<close> list: the game-asset document, the user-content document, and the empty
  user-content document.
\<close>

theorem totalImages_is_length:
  "(\<forall>p d. (p, d) \<in> set (written (buildImageIndexes genv now)) \<longrightarrow>
       g_totalImages d = length (g_images d))
   \<and> (\<forall>p d. (p, d) \<in> set (written (generateIndex uenv clock)) \<longrightarrow>
       u_totalImages d = length (u_images d))"
  using written_buildImageIndexes(3) written_generateIndex(3) by blast

text \<open>
  The theorem at a scan root with two images, at three sidecars and at no sidecar: each
  run writes a document, and the document's count is the length of its list.
\<close>

theorem totalImages_is_length_witness:
  "map g_totalImages (writtenDocs (buildImageIndexes g_icons ''2025-06-01T00:00:00.000Z'')) = [2]
   \<and> map (length \<circ> g_images) (writtenDocs (buildImageIndexes g_icons ''2025-06-01T00:00:00.000Z'')) = [2]
   \<and> map u_totalImages (writtenDocs (generateIndex u_three clockA)) = [3]
   \<and> map (length \<circ> u_images) (writtenDocs (generateIndex u_three clockA)) = [3]"
proof -
  let ?g = "buildImageIndexes g_icons ''2025-06-01T00:00:00.000Z''"
  let ?u = "generateIndex u_three clockA"
  have g: "map (length \<circ> g_images) (writtenDocs ?g) = [2]" by code_simp
  have u: "map (length \<circ> u_images) (writtenDocs ?u) = [3]" by code_simp
  have "map g_totalImages (writtenDocs ?g) = map (length \<circ> g_images) (writtenDocs ?g)"
    using totalImages_is_length[of g_icons "''2025-06-01T00:00:00.000Z''" u_three clockA]
    by (auto simp: writtenDocs_def)
  moreover have "map u_totalImages (writtenDocs ?u) = map (length \<circ> u_images) (writtenDocs ?u)"
    using totalImages_is_length[of g_icons "''2025-06-01T00:00:00.000Z''" u_three clockA]
    by (auto simp: writtenDocs_def)
  ultimately show ?thesis using g u by simp
qed

section \<open>No image, no sidecar\<close>

text \<open>
  With nothing to index: when the scan root of the game-asset builder exists and the
  scanner finds no image file under it, the process warns, exits with code 0 and writes no
  file. When the user-content builder finds no sidecar and its write succeeds, it writes
  the empty index document: version \<^verbatim>\<open>1.0\<close>, \<^verbatim>\<open>totalImages\<close> 0, the generation date, an
  empty \<^verbatim>\<open>images\<close> list and an empty \<^verbatim>\<open>byCategory\<close> object, and the process ends with
  code 0. When the write throws, the process exits with code 1 and nothing is written.
\<close>

lemma zero_images:
  "(cdn_root genv \<noteq> Missing \<and> getImagesInDirectory (CDN_DIR genv) (cdn_root genv) = [] \<longrightarrow>
      buildImageIndexes genv now =
        \<lparr>exit_code = 0, written = [], warnings = [''No images found in CDN directory'']\<rparr>)
   \<and> (metadataFiles uenv = [] \<and> index_writable uenv \<longrightarrow>
      generateIndex uenv clock =
        \<lparr>exit_code = 0,
         written = [(OUTPUT_PATH,
                     \<lparr>u_version = ''1.0'', u_totalImages = 0, u_generatedDate = nowEnd clock,
                      u_images = [], u_byCategory = Map.empty\<rparr>)],
         warnings = []\<rparr>)
   \<and> (metadataFiles uenv = [] \<and> \<not> index_writable uenv \<longrightarrow>
      generateIndex uenv clock = \<lparr>exit_code = 1, written = [], warnings = []\<rparr>)"
  by (simp add: buildImageIndexes_def generateIndex_def Let_def fatal_def)

text \<open>
  For instance, at a scan root that holds a text file, an empty directory and an
  unreadable directory, and at a user-content tree without sidecars.
\<close>

lemma zero_images_example:
  "cdn_root g_no_images \<noteq> Missing
   \<and> getImagesInDirectory (CDN_DIR g_no_images) (cdn_root g_no_images) = []
   \<and> buildImageIndexes g_no_images ''2025-06-01T00:00:00.000Z'' =
        \<lparr>exit_code = 0, written = [], warnings = [''No images found in CDN directory'']\<rparr>
   \<and> metadataFiles u_none = [] \<and> index_writable u_none
   \<and> generateIndex u_none clockA =
        \<lparr>exit_code = 0,
         written = [(''user-content/images/image-index.json'',
                     \<lparr>u_version = ''1.0'', u_totalImages = 0,
                      u_generatedDate = ''2026-01-01T00:00:00.000Z'',
                      u_images = [], u_byCategory = Map.empty\<rparr>)],
         warnings = []\<rparr>"
proof -
  have a: "cdn_root g_no_images \<noteq> Missing" by (simp add: g_no_images_def exampleGame_def)
  have b: "getImagesInDirectory (CDN_DIR g_no_images) (cdn_root g_no_images) = []" by code_simp
  have c: "metadataFiles u_none = []" by (simp add: u_none_def exampleEnv_def)
  have d: "index_writable u_none" by (simp add: u_none_def exampleEnv_def)
  have e: "OUTPUT_PATH = ''user-content/images/image-index.json''"
    by (simp add: OUTPUT_PATH_def BASE_PATH_def join_def)
  have f: "nowEnd clockA = ''2026-01-01T00:00:00.000Z''" by (simp add: clockA_def)
  from zero_images[of g_no_images "''2025-06-01T00:00:00.000Z''" u_none clockA] a b c d
  show ?thesis unfolding e f by simp
qed

text \<open>
  Claim C7 says that the user-content builder, when it finds no sidecar, writes the empty
  index document. The script writes to \<^verbatim>\<open>user-content/images/image-index.json\<close> without
  making the directory first, which the game-asset builder does before its own write
  (\<^verbatim>\<open>fs.mkdir(OUTPUT_DIR, {recursive: true})\<close>). When \<^verbatim>\<open>user-content/images\<close> does not
  exist the glob finds no sidecar, \<^verbatim>\<open>writeFileSync\<close> throws, and the process exits with
  code 1 and no file written. The game-asset half of the claim holds as stated.
\<close>

theorem empty_index_needs_directory:
  "metadataFiles u_no_directory = []
   \<and> exit_code (generateIndex u_no_directory clockA) = 1
   \<and> writtenPaths (generateIndex u_no_directory clockA) = []"
  by code_simp

section \<open>The files of a game-asset run\<close>

lemma writtenPaths_buildImageIndexes:
  "writtenPaths (buildImageIndexes env now) = [] \<or>
   writtenPaths (buildImageIndexes env now) = [INDEX_PATH env]"
  by (simp add: writtenPaths_def buildImageIndexes_def Let_def)

text \<open>
  Claim C9 says that a successful game-asset run also produces
  \<^verbatim>\<open>image-search-index.json\<close>, as \<^verbatim>\<open>scripts/README.md\<close> lists among the outputs of
  \<^verbatim>\<open>build-game-asset-index.js\<close>. The script writes one file. At a scan root with two
  images the run succeeds and the only file written is \<^verbatim>\<open>image-index.json\<close>.
\<close>

theorem only_image_index_written:
  "exit_code (buildImageIndexes g_icons ''2025-06-01T00:00:00.000Z'') = 0
   \<and> writtenPaths (buildImageIndexes g_icons ''2025-06-01T00:00:00.000Z'')
       = [''/repo/game-assets/images/image-index.json'']"
  by code_simp

section \<open>The category of a game asset\<close>

lemma categoryOf_first_segment:
  "categoryOf rel = (if hd (split_on (\<lambda>c. isSlash c \<or> isBackslash c) rel) = [] then ''uncategorized''
                     else hd (split_on (\<lambda>c. isSlash c \<or> isBackslash c) rel))"
  using split_on_not_Nil[of "\<lambda>c. isSlash c \<or> isBackslash c" rel]
  by (cases "split_on (\<lambda>c. isSlash c \<or> isBackslash c) rel") (auto simp: categoryOf_def truthy_def)

text \<open>
  Claim C4 says that the category is the first directory of the path relative to the scan
  root, and \<^verbatim>\<open>uncategorized\<close> for a file directly under the scan root. For
  \<^verbatim>\<open>fire.png\<close> directly under the scan root the relative path is \<^verbatim>\<open>fire.png\<close>, its first
  segment is the file name, which is truthy, and the fallback is not taken: the entry's
  category is \<^verbatim>\<open>fire.png\<close>. The unused helper \<^verbatim>\<open>extractCategory\<close> does the same.
\<close>

theorem root_file_category:
  "map (map g_path) (gameImages (buildImageIndexes g_icons ''2025-06-01T00:00:00.000Z''))
     = [[''/fire.png'', ''/spirits/Spirit_001.png'']]
   \<and> map (map g_category) (gameImages (buildImageIndexes g_icons ''2025-06-01T00:00:00.000Z''))
     = [[''fire.png'', ''spirits'']]
   \<and> categoryOf ''fire.png'' = ''fire.png''
   \<and> extractCategory ''fire.png'' = ''fire.png''"
  by code_simp

lemma split_on_no_separator: "\<not> list_ex sep s \<Longrightarrow> split_on sep s = [s]"
  by (induction s) auto

lemma categoryOf_root_file:
  "rel \<noteq> [] \<Longrightarrow> \<not> list_ex (\<lambda>c. isSlash c \<or> isBackslash c) rel \<Longrightarrow> categoryOf rel = rel"
  by (simp add: categoryOf_def split_on_no_separator truthy_def)

section \<open>Two runs on one file system\<close>









section \<open>The category buckets\<close>

lemma bucket_of_written:
  assumes "(p, d) \<in> set (written (generateIndex env clock))"
  shows "u_byCategory d c =
           (if c \<in> u_category ` set (u_images d)
            then Some (map u_id (filter (\<lambda>e. u_category e = c) (u_images d)))
            else None)"
  using groupByCategory_Some[OF written_generateIndex(4)[OF assms], of c] by simp

lemma count_list_map_filter:
  "count_list (map f (filter P xs)) v = length (filter (\<lambda>x. P x \<and> f x = v) xs)"
  by (induction xs) auto

lemma length_filter_conj_le: "length (filter (\<lambda>x. P x \<and> Q x) xs) \<le> length (filter Q xs)"
  by (induction xs) auto

lemma distinct_count_list_le: "distinct xs \<Longrightarrow> count_list xs v \<le> 1"
  by (induction xs) (auto simp: count_list_0_iff)

text \<open>
  Claim C1, as amended. In every index document the user-content builder writes: the keys
  of \<^verbatim>\<open>byCategory\<close> are the categories of the entries; the bucket of a category lists the
  ids of the entries of that category in the order of \<^verbatim>\<open>images\<close>, so it holds an entry's id
  as many times as \<^verbatim>\<open>images\<close> has entries with that id and category, which is at least
  once; every id in a bucket is the id of an entry of that category. When the ids in
  \<^verbatim>\<open>images\<close> are pairwise distinct, each entry's id is in its bucket exactly once and
  every id in a bucket belongs to exactly one entry.
\<close>

theorem byCategory_consistent:
  assumes "(p, d) \<in> set (written (generateIndex env clock))"
  shows "dom (u_byCategory d) = u_category ` set (u_images d)
    \<and> (\<forall>c \<in> dom (u_byCategory d).
          u_byCategory d c = Some (map u_id (filter (\<lambda>e. u_category e = c) (u_images d))))
    \<and> (\<forall>e \<in> set (u_images d). \<exists>ids. u_byCategory d (u_category e) = Some ids
          \<and> count_list ids (u_id e)
              = length (filter (\<lambda>x. u_category x = u_category e \<and> u_id x = u_id e) (u_images d))
          \<and> 1 \<le> count_list ids (u_id e))
    \<and> (\<forall>c ids i. u_byCategory d c = Some ids \<and> i \<in> set ids \<longrightarrow>
          (\<exists>e \<in> set (u_images d). u_id e = i \<and> u_category e = c))
    \<and> (distinct (map u_id (u_images d)) \<longrightarrow>
          (\<forall>e \<in> set (u_images d). \<exists>ids. u_byCategory d (u_category e) = Some ids
              \<and> count_list ids (u_id e) = 1)
          \<and> (\<forall>c ids i. u_byCategory d c = Some ids \<and> i \<in> set ids \<longrightarrow>
                (\<exists>!e. e \<in> set (u_images d) \<and> u_id e = i)))"
proof -
  note b = bucket_of_written[OF assms]
  have dom: "dom (u_byCategory d) = u_category ` set (u_images d)"
    by (auto simp: b dom_def)
  have buckets: "\<forall>c \<in> dom (u_byCategory d).
          u_byCategory d c = Some (map u_id (filter (\<lambda>e. u_category e = c) (u_images d)))"
    unfolding dom by (simp add: b)
  have mem: "\<exists>e' \<in> set (u_images d). u_id e' = i \<and> u_category e' = c"
    if "u_byCategory d c = Some ids" "i \<in> set ids" for c ids i
    using that by (auto simp: b split: if_splits)
  have cnt: "\<exists>ids. u_byCategory d (u_category e) = Some ids
          \<and> count_list ids (u_id e)
              = length (filter (\<lambda>x. u_category x = u_category e \<and> u_id x = u_id e) (u_images d))
          \<and> 1 \<le> count_list ids (u_id e)"
    if e: "e \<in> set (u_images d)" for e
  proof -
    have "filter (\<lambda>x. u_category x = u_category e \<and> u_id x = u_id e) (u_images d) \<noteq> []"
      using e by (auto simp: filter_empty_conv)
    then have "1 \<le> length (filter (\<lambda>x. u_category x = u_category e \<and> u_id x = u_id e) (u_images d))"
      by (simp add: Suc_le_eq)
    with e show ?thesis
      by (simp add: b count_list_map_filter)
  qed
  have once: "\<exists>ids. u_byCategory d (u_category e) = Some ids \<and> count_list ids (u_id e) = 1"
    if dist: "distinct (map u_id (u_images d))" and e: "e \<in> set (u_images d)" for e
  proof -
    from cnt[OF e] obtain ids where ids: "u_byCategory d (u_category e) = Some ids"
      "1 \<le> count_list ids (u_id e)"
      "count_list ids (u_id e)
         = length (filter (\<lambda>x. u_category x = u_category e \<and> u_id x = u_id e) (u_images d))"
      by blast
    have "length (filter (\<lambda>x. u_category x = u_category e \<and> u_id x = u_id e) (u_images d))
            \<le> length (filter (\<lambda>x. u_id x = u_id e) (u_images d))"
      by (rule length_filter_conj_le)
    also have "\<dots> = count_list (map u_id (u_images d)) (u_id e)"
      using count_list_map_filter[of u_id "\<lambda>x. True" "u_images d" "u_id e"] by simp
    also have "\<dots> \<le> 1"
      using dist by (rule distinct_count_list_le)
    finally show ?thesis using ids by (intro exI[of _ ids]) simp
  qed
  have uniq: "\<exists>!e. e \<in> set (u_images d) \<and> u_id e = i"
    if dist: "distinct (map u_id (u_images d))" and "u_byCategory d c = Some ids" "i \<in> set ids"
    for c ids i
  proof -
    from mem[OF that(2,3)] obtain e where e: "e \<in> set (u_images d)" "u_id e = i" by blast
    moreover have "e' = e" if "e' \<in> set (u_images d)" "u_id e' = i" for e'
      using dist e that by (meson distinct_map inj_onD)
    ultimately show ?thesis by blast
  qed
  from dom buckets cnt mem once uniq show ?thesis by blast
qed

text \<open>
  The theorem at three sidecars with the ids \<^verbatim>\<open>abc123\<close>, \<^verbatim>\<open>new\<close> and \<^verbatim>\<open>pic\<close>: the run
  writes a document, the ids are distinct, the keys are the two categories and the bucket
  of \<^verbatim>\<open>screens\<close> holds \<^verbatim>\<open>new\<close> and \<^verbatim>\<open>pic\<close> once each.
\<close>

theorem byCategory_consistent_witness:
  "written (generateIndex u_three clockA) \<noteq> []
   \<and> distinct (map u_id (u_images (snd (hd (written (generateIndex u_three clockA))))))
   \<and> dom (u_byCategory (snd (hd (written (generateIndex u_three clockA)))))
        = u_category ` set (u_images (snd (hd (written (generateIndex u_three clockA)))))
   \<and> map (map u_category) (userImages (generateIndex u_three clockA)) = [[''other'', ''screens'', ''screens'']]
   \<and> userBucket (generateIndex u_three clockA) ''screens'' = [Some [''new'', ''pic'']]
   \<and> userBucket (generateIndex u_three clockA) ''other'' = [Some [''abc123'']]"
proof -
  let ?r = "generateIndex u_three clockA"
  have ne: "written ?r \<noteq> []" by code_simp
  then have mem: "(fst (hd (written ?r)), snd (hd (written ?r))) \<in> set (written ?r)" by simp
  have di: "distinct (map u_id (u_images (snd (hd (written ?r)))))" by code_simp
  have ca: "map (map u_category) (userImages ?r) = [[''other'', ''screens'', ''screens'']]" by code_simp
  have b1: "userBucket ?r ''screens'' = [Some [''new'', ''pic'']]" by code_simp
  have b2: "userBucket ?r ''other'' = [Some [''abc123'']]" by code_simp
  from byCategory_consistent[OF mem] ne di ca b1 b2 show ?thesis by blast
qed

text \<open>
  Claim C1 as it is written says exactly once and exactly one entry. The id is the base
  name of the sidecar, and the glob descends into every directory: two sidecars named
  \<^verbatim>\<open>x-metadata.json\<close> in the directories \<^verbatim>\<open>a\<close> and \<^verbatim>\<open>b\<close> give two entries with the id
  \<^verbatim>\<open>x\<close>, and the bucket of their category holds \<^verbatim>\<open>x\<close> twice.
\<close>

theorem same_basename_twice_in_bucket:
  "map (map u_id) (userImages (generateIndex u_same_basename clockA)) = [[''x'', ''x'']]
   \<and> map (map u_path) (userImages (generateIndex u_same_basename clockA))
       = [[Some ''user-content/images/a/x.png'', Some ''user-content/images/b/x.jpg'']]
   \<and> map (map u_category) (userImages (generateIndex u_same_basename clockA)) = [[''other'', ''other'']]
   \<and> userBucket (generateIndex u_same_basename clockA) ''other'' = [Some [''x'', ''x'']]"
  by code_simp

section \<open>The order of the images\<close>

lemma filter_uploadTime:
  assumes "\<forall>e \<in> set ys. uploadTime env e \<noteq> None"
  shows "filter (\<lambda>e. uploadTime env e = t) ys =
           (case t of None \<Rightarrow> [] | Some v \<Rightarrow> filter (\<lambda>e. negTime env e = - v) ys)"
proof (cases t)
  case None
  with assms show ?thesis by (simp add: filter_empty_conv)
next
  case (Some v)
  have "filter (\<lambda>e. uploadTime env e = Some v) ys = filter (\<lambda>e. negTime env e = - v) ys"
    using assms by (intro filter_cong refl) (auto simp: negTime_def)
  with Some show ?thesis by simp
qed

lemma timeGe_negTime:
  assumes "uploadTime env a \<noteq> None" "uploadTime env b \<noteq> None" "negTime env a \<le> negTime env b"
  shows "timeGe (uploadTime env a) (uploadTime env b)"
  using assms by (auto simp: timeGe_def negTime_def)

text \<open>
  Claim C2, as amended. In every index document the user-content builder writes in which
  the \<^verbatim>\<open>uploadDate\<close> of every entry is a valid date: each entry's upload time is at least
  the upload time of the entry after it, and for every time value the entries with that
  upload time stand in the order in which the loop pushed them (the sort is stable).
\<close>

theorem images_newest_first:
  assumes "(p, d) \<in> set (written (generateIndex env clock))"
    and "\<forall>e \<in> set (u_images d). uploadTime env e \<noteq> None"
  shows "(\<forall>i. Suc i < length (u_images d) \<longrightarrow>
            timeGe (uploadTime env (u_images d ! i)) (uploadTime env (u_images d ! Suc i)))
    \<and> (\<forall>t. filter (\<lambda>e. uploadTime env e = t) (u_images d)
            = filter (\<lambda>e. uploadTime env e = t) (collectEntries env clock 0 (metadataFiles env)))"
proof -
  let ?xs = "collectEntries env clock 0 (metadataFiles env)"
  have im: "u_images d = sortBy (compareUpload env) ?xs"
    using written_generateIndex(2)[OF assms(1)] by (simp add: sortedEntries_def)
  have valid: "\<forall>e \<in> set ?xs. uploadTime env e \<noteq> None"
    using assms(2) by (simp add: im set_sortBy)
  have sk: "u_images d = sort_key (negTime env) ?xs"
    using im sortBy_valid[OF valid] by simp
  have "sorted (map (negTime env) (u_images d))"
    unfolding sk by (rule sorted_sort_key)
  then have adj: "negTime env (u_images d ! i) \<le> negTime env (u_images d ! Suc i)"
    if "Suc i < length (u_images d)" for i
    using that by (auto simp: sorted_iff_nth_Suc dest!: spec[of _ i])
  have ordered: "timeGe (uploadTime env (u_images d ! i)) (uploadTime env (u_images d ! Suc i))"
    if "Suc i < length (u_images d)" for i
    using that assms(2) adj[OF that] by (intro timeGe_negTime) auto
  have stable: "filter (\<lambda>e. uploadTime env e = t) (u_images d) = filter (\<lambda>e. uploadTime env e = t) ?xs"
    for t
    unfolding filter_uploadTime[OF assms(2)] filter_uploadTime[OF valid]
    by (cases t) (simp_all add: sk sort_key_stable)
  from ordered stable show ?thesis by blast
qed

text \<open>
  The theorem at three sidecars dated 2024-01-01, 2025-01-01 and 2025-01-01, in this order
  of the glob: the newest come first, and the two entries of 2025-01-01 keep their order.
\<close>

theorem images_newest_first_witness:
  "written (generateIndex u_three clockA) \<noteq> []
   \<and> list_all (\<lambda>e. uploadTime u_three e \<noteq> None) (u_images (snd (hd (written (generateIndex u_three clockA)))))
   \<and> timeGe (uploadTime u_three (u_images (snd (hd (written (generateIndex u_three clockA)))) ! 0))
            (uploadTime u_three (u_images (snd (hd (written (generateIndex u_three clockA)))) ! Suc 0))
   \<and> filter (\<lambda>e. uploadTime u_three e = Some 1735689600000)
        (u_images (snd (hd (written (generateIndex u_three clockA)))))
      = filter (\<lambda>e. uploadTime u_three e = Some 1735689600000)
          (collectEntries u_three clockA 0 (metadataFiles u_three))
   \<and> map (map u_id) (userImages (generateIndex u_three clockA)) = [[''abc123'', ''new'', ''pic'']]
   \<and> map (map u_uploadDate) (userImages (generateIndex u_three clockA))
       = [[''2025-01-01'', ''2025-01-01'', ''2024-01-01'']]
   \<and> map u_id (collectEntries u_three clockA 0 (metadataFiles u_three)) = [''pic'', ''abc123'', ''new'']"
proof -
  let ?r = "generateIndex u_three clockA"
  let ?d = "snd (hd (written ?r))"
  have ne: "written ?r \<noteq> []" by code_simp
  then have mem: "(fst (hd (written ?r)), ?d) \<in> set (written ?r)" by simp
  have va: "list_all (\<lambda>e. uploadTime u_three e \<noteq> None) (u_images ?d)" by code_simp
  then have va': "\<forall>e \<in> set (u_images ?d). uploadTime u_three e \<noteq> None"
    by (simp add: list_all_iff)
  have len: "Suc 0 < length (u_images ?d)" by code_simp
  have ids: "map (map u_id) (userImages ?r) = [[''abc123'', ''new'', ''pic'']]" by code_simp
  have dates: "map (map u_uploadDate) (userImages ?r) = [[''2025-01-01'', ''2025-01-01'', ''2024-01-01'']]"
    by code_simp
  have inp: "map u_id (collectEntries u_three clockA 0 (metadataFiles u_three)) = [''pic'', ''abc123'', ''new'']"
    by code_simp
  from images_newest_first[OF mem va'] ne va len ids dates inp show ?thesis by blast
qed

text \<open>
  Claim C2 as it is written covers every run. The sidecar supplies \<^verbatim>\<open>uploadDate\<close>, and
  nothing checks that it is a date. With the dates \<^verbatim>\<open>2025-01-01\<close> and \<^verbatim>\<open>not a date\<close> the
  comparator returns \<^verbatim>\<open>NaN\<close>, the sort leaves the two entries as they are, and the first
  entry's upload time is not at least the second's, which has none. (Read as strings,
  \<^verbatim>\<open>'2025-01-01' >= 'not a date'\<close> is false as well.)
\<close>

theorem invalid_date_not_ordered:
  "map (map u_uploadDate) (userImages (generateIndex u_invalid_date clockA))
     = [[''2025-01-01'', ''not a date'']]
   \<and> dateValue u_invalid_date ''2025-01-01'' = Some 1735689600000
   \<and> dateValue u_invalid_date ''not a date'' = None
   \<and> \<not> timeGe (dateValue u_invalid_date ''2025-01-01'') (dateValue u_invalid_date ''not a date'')"
  by code_simp

section \<open>A sidecar without its image\<close>

lemma basename_no_slash: "\<not> list_ex isSlash (basename p)"
proof -
  have "\<forall>c \<in> set (takeWhile (\<lambda>c. \<not> isSlash c) (rev p)). \<not> isSlash c"
    by (auto dest: set_takeWhileD)
  then show ?thesis by (simp add: basename_def list_ex_iff)
qed

lemma basenameWithout_no_slash: "\<not> list_ex isSlash (basenameWithout p suf)"
  using basename_no_slash[of p]
  by (auto simp: basenameWithout_def Let_def list_ex_iff dest: in_set_takeD)

lemma basename_join: "\<not> list_ex isSlash n \<Longrightarrow> basename (join d n) = n"
  by (simp add: basename_def join_def list_ex_iff isSlash_def takeWhile_append)

lemma dirname_join: "\<not> list_ex isSlash n \<Longrightarrow> dirname (join d n) = d"
  by (simp add: dirname_def join_def list_ex_iff isSlash_def dropWhile_append)

lemma existsSync_join:
  "\<not> list_ex isSlash n \<Longrightarrow> existsSync env (join d n) \<longleftrightarrow> n \<in> set (dirEntries env d)"
  by (simp add: existsSync_def basename_join dirname_join)

lemma pickOriginal_Nil: "pickOriginal [] = None"
  by (simp add: pickOriginal_def)

lemma buildEntry_Some:
  assumes "buildEntry env now f = Some e"
  shows "\<exists>md. readJSON env f = Some md
           \<and> u_id e = basenameWithout f ''-metadata.json''
           \<and> u_uploadDate e = orElse (m_uploadDate md) (orElse (m_uploadedAt md) now)"
  using assms by (auto simp: buildEntry_def Let_def split: option.splits)

lemma buildEntry_no_image:
  assumes parse: "readJSON env f = Some md"
    and nofile: "\<forall>x \<in> set originalExts.
        basenameWithout f ''-metadata.json'' @ ''.'' @ x \<notin> set (dirEntries env (dirname f))"
  shows "\<exists>e. buildEntry env now f = Some e
          \<and> u_id e = basenameWithout f ''-metadata.json''
          \<and> u_filesize e = 0 \<and> u_path e = None \<and> u_webpPath e = None
          \<and> u_dimensions e =
              (case m_dimensions md of
                 None \<Rightarrow> zeroDims
               | Some dd \<Rightarrow> if width dd \<noteq> 0 \<and> height dd \<noteq> 0 then dd else zeroDims)"
proof -
  let ?id = "basenameWithout f ''-metadata.json''"
  let ?dir = "dirname f"
  have g: "globImages env ?dir ?id = []"
    using nofile by (auto simp: globImages_def filter_empty_conv)
  have ns: "\<not> list_ex isSlash (?id @ ''.webp'')"
    using basenameWithout_no_slash[of f "''-metadata.json''"] by (simp add: list_ex_iff isSlash_def)
  have "?id @ ''.'' @ ''webp'' \<notin> set (dirEntries env ?dir)"
    using nofile by (simp add: originalExts_def)
  then have w: "\<not> existsSync env (join ?dir (?id @ ''.webp''))"
    using existsSync_join[OF ns, of env ?dir] by simp
  have x: "extractDimensions env None (join ?dir (?id @ ''.webp'')) = zeroDims"
    using w by (simp add: extractDimensions_def)
  show ?thesis
    using parse by (auto simp: buildEntry_def Let_def g pickOriginal_Nil w x split: option.splits)
qed

lemma collectEntries_nth:
  assumes "i < length fs" "buildEntry env (nowAt clock (k + i)) (fs ! i) = Some e"
  shows "e \<in> set (collectEntries env clock k fs)"
  using assms collectEntries_mem[of e env clock k fs] by blast

text \<open>
  Claim C8, as amended. Take a sidecar \<^verbatim>\<open><id>-metadata.json\<close> whose content parses to a
  JSON object (not \<^verbatim>\<open>null\<close>), whose path holds no glob metacharacter (none of
  \<^verbatim>\<open>* ? [ ] { } ( ) ! + @ |\<close> and no backslash), and whose directory holds none of
  \<^verbatim>\<open><id>.jpg\<close>, \<^verbatim>\<open><id>.jpeg\<close>, \<^verbatim>\<open><id>.png\<close>, \<^verbatim>\<open><id>.gif\<close>, \<^verbatim>\<open><id>.webp\<close>. The loop builds
  an entry for \<^verbatim>\<open><id>\<close> with \<^verbatim>\<open>filesize\<close> 0, \<^verbatim>\<open>path\<close> \<^verbatim>\<open>null\<close> and \<^verbatim>\<open>webpPath\<close> \<^verbatim>\<open>null\<close>;
  its \<^verbatim>\<open>dimensions\<close> are 0 by 0 when the sidecar has no \<^verbatim>\<open>dimensions\<close> with a non-zero
  width and a non-zero height, and the sidecar's own \<^verbatim>\<open>dimensions\<close> when it has. Every
  index document the run writes holds that entry.
\<close>

theorem missing_primary_file:
  assumes "i < length (metadataFiles env)"
    and "readJSON env (metadataFiles env ! i) = Some md"
    and "\<not> list_ex globSpecial (metadataFiles env ! i)"
    and "\<forall>x \<in> set originalExts.
           basenameWithout (metadataFiles env ! i) ''-metadata.json'' @ ''.'' @ x
             \<notin> set (dirEntries env (dirname (metadataFiles env ! i)))"
  shows "\<exists>e. buildEntry env (nowAt clock i) (metadataFiles env ! i) = Some e
          \<and> u_id e = basenameWithout (metadataFiles env ! i) ''-metadata.json''
          \<and> u_filesize e = 0 \<and> u_path e = None \<and> u_webpPath e = None
          \<and> u_dimensions e =
              (case m_dimensions md of
                 None \<Rightarrow> zeroDims
               | Some dd \<Rightarrow> if width dd \<noteq> 0 \<and> height dd \<noteq> 0 then dd else zeroDims)
          \<and> (\<forall>p d. (p, d) \<in> set (written (generateIndex env clock)) \<longrightarrow> e \<in> set (u_images d))"
proof -
  from buildEntry_no_image[OF assms(2,4), of "nowAt clock i"] obtain e where
    e: "buildEntry env (nowAt clock i) (metadataFiles env ! i) = Some e"
      "u_id e = basenameWithout (metadataFiles env ! i) ''-metadata.json''"
      "u_filesize e = 0" "u_path e = None" "u_webpPath e = None"
      "u_dimensions e =
              (case m_dimensions md of
                 None \<Rightarrow> zeroDims
               | Some dd \<Rightarrow> if width dd \<noteq> 0 \<and> height dd \<noteq> 0 then dd else zeroDims)"
    by blast
  have "e \<in> set (collectEntries env clock 0 (metadataFiles env))"
    using collectEntries_nth[of i "metadataFiles env" env clock 0 e] assms(1) e(1) by simp
  then have "e \<in> set (sortedEntries env clock)"
    by (simp add: sortedEntries_def set_sortBy)
  then have "\<forall>p d. (p, d) \<in> set (written (generateIndex env clock)) \<longrightarrow> e \<in> set (u_images d)"
    using written_generateIndex(2) by simp
  with e show ?thesis by blast
qed

text \<open>
  The theorem at the second of three sidecars, \<^verbatim>\<open>abc123-metadata.json\<close> with only an
  \<^verbatim>\<open>uploadDate\<close>, at a path without glob metacharacter, in a directory without any
  \<^verbatim>\<open>abc123\<close> image.
\<close>

theorem missing_primary_file_witness:
  "Suc 0 < length (metadataFiles u_three)
   \<and> metadataFiles u_three ! Suc 0 = ''user-content/images/other/2025/abc123-metadata.json''
   \<and> readJSON u_three ''user-content/images/other/2025/abc123-metadata.json''
        = Some (noMetadata\<lparr>m_uploadDate := Some ''2025-01-01''\<rparr>)
   \<and> \<not> list_ex globSpecial ''user-content/images/other/2025/abc123-metadata.json''
   \<and> list_all (\<lambda>x. ''abc123'' @ ''.'' @ x \<notin> set (dirEntries u_three ''user-content/images/other/2025''))
        originalExts
   \<and> (\<exists>e. buildEntry u_three (nowAt clockA (Suc 0)) ''user-content/images/other/2025/abc123-metadata.json''
             = Some e
          \<and> u_id e = ''abc123'' \<and> u_filesize e = 0 \<and> u_path e = None \<and> u_webpPath e = None
          \<and> u_dimensions e = \<lparr>width = 0, height = 0\<rparr>
          \<and> e \<in> set (u_images (snd (hd (written (generateIndex u_three clockA))))))
   \<and> written (generateIndex u_three clockA) \<noteq> []"
proof -
  let ?f = "''user-content/images/other/2025/abc123-metadata.json''"
  let ?r = "generateIndex u_three clockA"
  have len: "Suc 0 < length (metadataFiles u_three)" by code_simp
  have f: "metadataFiles u_three ! Suc 0 = ?f" by code_simp
  have md: "readJSON u_three ?f = Some (noMetadata\<lparr>m_uploadDate := Some ''2025-01-01''\<rparr>)"
    by (simp add: u_three_def exampleEnv_def)
  have idn: "basenameWithout ?f ''-metadata.json'' = ''abc123''" by code_simp
  have dir: "dirname ?f = ''user-content/images/other/2025''" by code_simp
  have nf: "list_all (\<lambda>x. ''abc123'' @ ''.'' @ x \<notin> set (dirEntries u_three ''user-content/images/other/2025''))
        originalExts" by code_simp
  then have nf': "\<forall>x \<in> set originalExts.
      basenameWithout (metadataFiles u_three ! Suc 0) ''-metadata.json'' @ ''.'' @ x
        \<notin> set (dirEntries u_three (dirname (metadataFiles u_three ! Suc 0)))"
    unfolding f idn dir by (simp add: list_all_iff)
  have dm: "m_dimensions (noMetadata\<lparr>m_uploadDate := Some ''2025-01-01''\<rparr>) = None"
    by (simp add: noMetadata_def)
  have ne: "written ?r \<noteq> []" by code_simp
  then have mem: "(fst (hd (written ?r)), snd (hd (written ?r))) \<in> set (written ?r)" by simp
  have md': "readJSON u_three (metadataFiles u_three ! Suc 0)
      = Some (noMetadata\<lparr>m_uploadDate := Some ''2025-01-01''\<rparr>)"
    unfolding f by (rule md)
  have gs: "\<not> list_ex globSpecial ?f" by code_simp
  then have gs': "\<not> list_ex globSpecial (metadataFiles u_three ! Suc 0)" unfolding f .
  from missing_primary_file[OF len md' gs' nf', of clockA] obtain e where
    e: "buildEntry u_three (nowAt clockA (Suc 0)) (metadataFiles u_three ! Suc 0) = Some e"
      "u_id e = basenameWithout (metadataFiles u_three ! Suc 0) ''-metadata.json''"
      "u_filesize e = 0" "u_path e = None" "u_webpPath e = None"
      "u_dimensions e =
         (case m_dimensions (noMetadata\<lparr>m_uploadDate := Some ''2025-01-01''\<rparr>) of
            None \<Rightarrow> zeroDims
          | Some dd \<Rightarrow> if width dd \<noteq> 0 \<and> height dd \<noteq> 0 then dd else zeroDims)"
      "\<forall>p d. (p, d) \<in> set (written ?r) \<longrightarrow> e \<in> set (u_images d)"
    by blast
  have e7: "e \<in> set (u_images (snd (hd (written ?r))))"
    using e(7) mem by blast
  have e6: "u_dimensions e = \<lparr>width = 0, height = 0\<rparr>"
    using e(6) unfolding dm by (simp add: zeroDims_def)
  have "\<exists>e. buildEntry u_three (nowAt clockA (Suc 0)) ?f = Some e
          \<and> u_id e = ''abc123'' \<and> u_filesize e = 0 \<and> u_path e = None \<and> u_webpPath e = None
          \<and> u_dimensions e = \<lparr>width = 0, height = 0\<rparr>
          \<and> e \<in> set (u_images (snd (hd (written ?r))))"
    using e(1-5) e6 e7 unfolding f idn by blast
  with len f md gs nf ne show ?thesis by blast
qed

text \<open>
  Claim C8 as it is written promises zero dimensions for every such sidecar. The
  dimensions are only read from a file when the sidecar lacks them: a sidecar that records
  800 by 600 and whose image is gone keeps 800 by 600 in its entry.
\<close>

theorem orphan_keeps_recorded_dimensions:
  "metadataFiles u_orphan = [''user-content/images/a/gone-metadata.json'']
   \<and> dirEntries u_orphan ''user-content/images/a'' = [''gone-metadata.json'']
   \<and> map (map u_id) (userImages (generateIndex u_orphan clockA)) = [[''gone'']]
   \<and> map (map u_path) (userImages (generateIndex u_orphan clockA)) = [[None]]
   \<and> map (map u_filesize) (userImages (generateIndex u_orphan clockA)) = [[0]]
   \<and> map (map u_dimensions) (userImages (generateIndex u_orphan clockA))
       = [[\<lparr>width = 800, height = 600\<rparr>]]"
  by code_simp

section \<open>The upload date of an entry\<close>

lemma orElse_clock:
  "\<not> hasUploadDate md \<Longrightarrow> orElse (m_uploadDate md) (orElse (m_uploadedAt md) now) = now"
  by (auto simp: hasUploadDate_def orElse_def truthy_def split: option.splits if_splits)

lemma orElse_truthy_default: "truthy d \<Longrightarrow> truthy (orElse x d)"
  by (simp add: orElse_def split: option.splits)

text \<open>
  Claim C10. Every entry of an index document that the user-content builder writes was
  built from a sidecar that parsed, say the \<open>i\<close>-th. Its \<^verbatim>\<open>uploadDate\<close> is the first truthy
  one of the sidecar's \<^verbatim>\<open>uploadDate\<close>, the sidecar's \<^verbatim>\<open>uploadedAt\<close> and the clock's reading
  while the sidecar was processed; so when the sidecar has neither it is the clock's
  reading, and as \<^verbatim>\<open>toISOString\<close> never returns the empty string the entry's \<^verbatim>\<open>uploadDate\<close>
  is a non-empty string in every case.
\<close>

theorem uploadDate_always_set:
  assumes "(p, d) \<in> set (written (generateIndex env clock))"
  shows "\<forall>e \<in> set (u_images d). \<exists>i md.
           i < length (metadataFiles env)
         \<and> readJSON env (metadataFiles env ! i) = Some md
         \<and> buildEntry env (nowAt clock i) (metadataFiles env ! i) = Some e
         \<and> u_uploadDate e = orElse (m_uploadDate md) (orElse (m_uploadedAt md) (nowAt clock i))
         \<and> (\<not> hasUploadDate md \<longrightarrow> u_uploadDate e = nowAt clock i)
         \<and> (truthy (nowAt clock i) \<longrightarrow> truthy (u_uploadDate e))"
proof
  fix e assume "e \<in> set (u_images d)"
  then have "e \<in> set (collectEntries env clock 0 (metadataFiles env))"
    using written_generateIndex(2)[OF assms] by (simp add: sortedEntries_def set_sortBy)
  then obtain i where i: "i < length (metadataFiles env)"
    "buildEntry env (nowAt clock i) (metadataFiles env ! i) = Some e"
    using collectEntries_mem[of e env clock 0 "metadataFiles env"] by auto
  from buildEntry_Some[OF i(2)] obtain md where md: "readJSON env (metadataFiles env ! i) = Some md"
    "u_uploadDate e = orElse (m_uploadDate md) (orElse (m_uploadedAt md) (nowAt clock i))"
    by blast
  have "\<not> hasUploadDate md \<longrightarrow> u_uploadDate e = nowAt clock i"
    using md(2) by (simp add: orElse_clock)
  moreover have "truthy (nowAt clock i) \<longrightarrow> truthy (u_uploadDate e)"
    using md(2) by (simp add: orElse_truthy_default)
  ultimately show "\<exists>i md.
           i < length (metadataFiles env)
         \<and> readJSON env (metadataFiles env ! i) = Some md
         \<and> buildEntry env (nowAt clock i) (metadataFiles env ! i) = Some e
         \<and> u_uploadDate e = orElse (m_uploadDate md) (orElse (m_uploadedAt md) (nowAt clock i))
         \<and> (\<not> hasUploadDate md \<longrightarrow> u_uploadDate e = nowAt clock i)
         \<and> (truthy (nowAt clock i) \<longrightarrow> truthy (u_uploadDate e))"
    using i md by blast
qed

text \<open>
  The theorem at one sidecar \<^verbatim>\<open>{}\<close>: the run writes a document, its only entry carries the
  clock's reading as \<^verbatim>\<open>uploadDate\<close>, and every entry's \<^verbatim>\<open>uploadDate\<close> is a non-empty string.
\<close>

theorem uploadDate_always_set_witness:
  "written (generateIndex u_no_date clockA) \<noteq> []
   \<and> readJSON u_no_date ''user-content/images/a/p-metadata.json'' = Some noMetadata
   \<and> \<not> hasUploadDate noMetadata
   \<and> list_all (\<lambda>e. truthy (u_uploadDate e)) (u_images (snd (hd (written (generateIndex u_no_date clockA)))))
   \<and> map (map u_uploadDate) (userImages (generateIndex u_no_date clockA)) = [[''2026-01-01T00:00:00.000Z'']]
   \<and> nowAt clockA 0 = ''2026-01-01T00:00:00.000Z''"
proof -
  let ?r = "generateIndex u_no_date clockA"
  have ne: "written ?r \<noteq> []" by code_simp
  then have mem: "(fst (hd (written ?r)), snd (hd (written ?r))) \<in> set (written ?r)" by simp
  have md: "readJSON u_no_date ''user-content/images/a/p-metadata.json'' = Some noMetadata"
    by (simp add: u_no_date_def exampleEnv_def)
  have nd: "\<not> hasUploadDate noMetadata" by code_simp
  have ck: "truthy (nowAt clockA i)" for i by (simp add: clockA_def truthy_def)
  have c0: "nowAt clockA 0 = ''2026-01-01T00:00:00.000Z''" by (simp add: clockA_def)
  have da: "map (map u_uploadDate) (userImages ?r) = [[''2026-01-01T00:00:00.000Z'']]" by code_simp
  from uploadDate_always_set[OF mem] ck
  have "\<forall>e \<in> set (u_images (snd (hd (written ?r)))). truthy (u_uploadDate e)" by blast
  then have "list_all (\<lambda>e. truthy (u_uploadDate e)) (u_images (snd (hd (written ?r))))"
    by (simp add: list_all_iff)
  with ne md nd c0 da show ?thesis by blast
qed

end
